theory Spec2Isabelle
  imports Complex_Main "HOL-Library.Sublist"
begin

section \<open>Python strings and integers\<close>

text \<open>
  The fragments of Python's string library that the modelled functions use:
  \<^verbatim>\<open>str.format\<close> / \<^verbatim>\<open>'%i' %\<close> of an int, \<^verbatim>\<open>str.split(sep)[-1]\<close>,
  \<^verbatim>\<open>str.lower\<close>, \<^verbatim>\<open>str.startswith\<close>, \<^verbatim>\<open>sep.join\<close> and
  \<^verbatim>\<open>int(str)\<close>. Python ints are unbounded, hence \<open>int\<close>.
\<close>

datatype py_error =
    ValueError
  | KeyError string
  | AttributeError
  | StoreError string

definition digit_char :: "nat \<Rightarrow> char" where
  "digit_char d =
     (if d = 0 then CHR ''0'' else if d = 1 then CHR ''1'' else if d = 2 then CHR ''2''
      else if d = 3 then CHR ''3'' else if d = 4 then CHR ''4'' else if d = 5 then CHR ''5''
      else if d = 6 then CHR ''6'' else if d = 7 then CHR ''7'' else if d = 8 then CHR ''8''
      else CHR ''9'')"

fun nat_digits :: "nat \<Rightarrow> string" where
  "nat_digits n = (if n < 10 then [digit_char n]
                   else nat_digits (n div 10) @ [digit_char (n mod 10)])"

declare nat_digits.simps [simp del]

text \<open>\<^verbatim>\<open>'{0}'.format(i)\<close> and \<^verbatim>\<open>'%i' % i\<close> for an int \<open>i\<close>.\<close>

definition str_of_int :: "int \<Rightarrow> string" where
  "str_of_int i = (if i < 0 then CHR ''-'' # nat_digits (nat (- i)) else nat_digits (nat i))"

definition is_digit :: "char \<Rightarrow> bool" where
  "is_digit c = ((of_char CHR ''0'' :: nat) \<le> of_char c \<and> (of_char c :: nat) \<le> of_char CHR ''9'')"

definition digit_val :: "char \<Rightarrow> nat" where
  "digit_val c = (of_char c :: nat) - of_char CHR ''0''"

definition is_space :: "char \<Rightarrow> bool" where
  "is_space c = (c \<in> set [CHR '' '', CHR 0x09, CHR 0x0A, CHR 0x0B, CHR 0x0C, CHR 0x0D])"

definition strip :: "string \<Rightarrow> string" where
  "strip s = rev (dropWhile is_space (rev (dropWhile is_space s)))"

fun digits_val :: "nat \<Rightarrow> string \<Rightarrow> nat" where
  "digits_val acc [] = acc"
| "digits_val acc (c # cs) = digits_val (10 * acc + digit_val c) cs"

definition parse_digits :: "string \<Rightarrow> py_error + nat" where
  "parse_digits s = (if s \<noteq> [] \<and> list_all is_digit s then Inr (digits_val 0 s) else Inl ValueError)"

text \<open>
  \<^verbatim>\<open>int(s)\<close> on a string: surrounding whitespace is dropped, one sign is allowed,
  the rest must be a non-empty run of decimal digits; anything else raises
  \<^verbatim>\<open>ValueError\<close>. (Python also accepts single underscores between digits; the only
  caller splits its argument at every underscore first, so none can occur.)
\<close>

definition py_int :: "string \<Rightarrow> py_error + int" where
  "py_int s = (case strip s of
       [] \<Rightarrow> Inl ValueError
     | c # cs \<Rightarrow>
         if c = CHR ''-'' then map_sum id (\<lambda>n. - int n) (parse_digits cs)
         else if c = CHR ''+'' then map_sum id int (parse_digits cs)
         else map_sum id int (parse_digits (c # cs)))"

text \<open>\<^verbatim>\<open>s.split(sep)[-1]\<close> for a one-character separator: the text after the last
  separator, the whole string when there is none.\<close>

fun last_part :: "char \<Rightarrow> string \<Rightarrow> string \<Rightarrow> string" where
  "last_part sep cur [] = cur"
| "last_part sep cur (c # cs) = (if c = sep then last_part sep [] cs else last_part sep (cur @ [c]) cs)"

definition split_last :: "char \<Rightarrow> string \<Rightarrow> string" where
  "split_last sep s = last_part sep [] s"

definition lower_char :: "char \<Rightarrow> char" where
  "lower_char c =
     (if (of_char CHR ''A'' :: nat) \<le> of_char c \<and> (of_char c :: nat) \<le> of_char CHR ''Z''
      then char_of (of_char c + (32::nat)) else c)"

definition lower :: "string \<Rightarrow> string" where
  "lower s = map lower_char s"

fun startswith :: "string \<Rightarrow> string \<Rightarrow> bool" where
  "startswith s [] = True"
| "startswith [] (p # ps) = False"
| "startswith (c # cs) (p # ps) = (c = p \<and> startswith cs ps)"

text \<open>\<^verbatim>\<open>sep.join(parts)\<close>.\<close>

fun join :: "string \<Rightarrow> string list \<Rightarrow> string" where
  "join sep [] = []"
| "join sep [p] = p"
| "join sep (p # q # ps) = p @ sep @ join sep (q # ps)"


section \<open>nftables registers: \<^verbatim>\<open>NFTReg\<close>\<close>

text \<open>
  \<^verbatim>\<open>pyroute2/nftables/parser/expr.py\<close>. An \<^verbatim>\<open>NFTReg\<close> object has the single field
  \<^verbatim>\<open>num\<close>, so a register is modelled by that integer.
\<close>

definition to_netlink :: "int \<Rightarrow> string" where
  "to_netlink num =
     (if num = 0 then ''NFT_REG_VERDICT''
      else if num < 8 then ''NFT_REG_'' @ str_of_int num
      else ''NFT_REG32_'' @ str_of_int num)"

definition from_netlink :: "string \<Rightarrow> py_error + int" where
  "from_netlink nlval =
     (if nlval = ''NFT_REG_VERDICT'' then Inr 0
      else case py_int (lower (split_last CHR ''_'' nlval)) of
             Inl e \<Rightarrow> Inl e
           | Inr num \<Rightarrow> Inr (if startswith nlval ''NFT_REG32_'' then num + 8 else num))"

section \<open>Values, rows and generators\<close>

text \<open>
  A field of a store row as \<^verbatim>\<open>View.csv\<close> distinguishes it: an int, \<^verbatim>\<open>None\<close>, a
  string, or any other object, which is carried by the text \<^verbatim>\<open>'%s' % field\<close>
  produces for it.
\<close>

datatype pyval = PyInt int | PyNone | PyStr string | PyObj string

type_synonym row = "pyval list"

text \<open>
  A Python generator is modelled by what one full run of its body does: the steps in
  program order (a value yielded, a statement executed on the store) and how the body
  ends (exhausted, or an exception raised after the last step). The body runs only while
  the consumer asks for the next value, so at every moment a prefix of the steps has
  happened.
\<close>

datatype 'a gstep = Yield 'a | Exec string "pyval list"

type_synonym 'a gen = "'a gstep list \<times> py_error option"

definition gen_then :: "'a gen \<Rightarrow> 'a gen \<Rightarrow> 'a gen" where
  "gen_then g h = (case snd g of Some e \<Rightarrow> g | None \<Rightarrow> (fst g @ fst h, snd h))"

definition quote :: char where
  "quote = CHR 0x27"


section \<open>Events, handlers and the engine state\<close>

text \<open>
  \<^verbatim>\<open>pyroute2/ndb/main.py\<close>. The objects that travel through the event queue are
  netlink messages, the \<^verbatim>\<open>threading.Event\<close> of the readiness barrier and exception
  objects; the dispatch loop looks handlers up by \<^verbatim>\<open>event.__class__\<close>. An
  \<open>ExcEvent\<close> is an instance of \<^verbatim>\<open>Exception\<close>, the objects for which
  \<^verbatim>\<open>isinstance(event, Exception)\<close> holds. Exception classes are taken as exact
  classes: the module defines the two control exceptions and no subclass of them.
\<close>

type_synonym target = string

datatype excclass = ShutdownException | InvalidateHandlerException | OtherException string

datatype pyclass = MsgClass string | ThreadingEvent | ExcClass excclass | OtherClass string

text \<open>A netlink message: its class, the code of \<^verbatim>\<open>msg['header']['error']\<close> (\<open>None\<close>
  when there is no error object) and a number that identifies the message.\<close>

datatype nlmsg = Nlmsg (msg_class: string) (error_code: "int option") (seq: nat)

datatype event = Msg nlmsg | ReadyEvent | ExcEvent excclass | OtherEvent string

fun class_of :: "event \<Rightarrow> pyclass" where
  "class_of (Msg m) = MsgClass (msg_class m)"
| "class_of ReadyEvent = ThreadingEvent"
| "class_of (ExcEvent c) = ExcClass c"
| "class_of (OtherEvent n) = OtherClass n"

text \<open>
  A handler is a callable, compared by \<^verbatim>\<open>list.remove\<close> with \<^verbatim>\<open>==\<close>:
  \<^item> \<open>SetReady\<close> is \<^verbatim>\<open>lambda t, x: x.set()\<close>;
  \<^item> \<open>DefaultHandler\<close> is the local \<^verbatim>\<open>default_handler\<close>;
  \<^item> \<open>Partial p wr fname\<close> is \<^verbatim>\<open>partial(wr_handler, wr, fname)\<close>: \<open>p\<close> is the identity
    of the partial object (partial objects are equal only to themselves), \<open>wr\<close> the
    address of the weak reference's referent;
  \<^item> \<open>Callable c\<close> is any other callable, such as the schema's handlers, by identity.
\<close>

datatype handler = SetReady | DefaultHandler | Partial nat nat string | Callable nat

datatype outcome = Returned | Raised excclass

datatype call = Method nat string | Function nat

datatype logline =
    UnsupportedEvent pyclass
  | CouldNotLoad event excclass
  | CouldNotInvalidate handler

datatype key = KeyStr string | KeyInt int | KeyDict "(string \<times> pyval) list"

datatype flow = Continue | Return | Crash

text \<open>
  The state of one \<^verbatim>\<open>NDB\<close> object as the dispatch loop and the views use it. \<open>'s\<close> is
  the state that the external handlers work on (the store and the data of the handles).
  \<open>alive a\<close> says that the Handle allocated at address \<open>a\<close> is still reachable, so
  that a weak reference to it resolves. \<open>ndb_rtnl_objects\<close> is \<open>None\<close> until the
  constructor has assigned \<^verbatim>\<open>self._rtnl_objects\<close>. \<open>ticks\<close> counts the calls of
  \<^verbatim>\<open>time.time()\<close>. The last two fields are not in the program: they record the events
  whose handler pass has begun and the handler calls made, in order.
\<close>

record 's ndb =
  ndb_event_map :: "pyclass \<Rightarrow> handler list option"
  ndb_rtnl_objects :: "nat list option"
  alive :: "nat \<Rightarrow> bool"
  next_id :: nat
  store :: 's
  dbm_ready :: bool
  gctime :: real
  ticks :: nat
  logged :: "logline list"
  dispatched :: "(target \<times> event) list"
  calls :: "(handler \<times> target \<times> event) list"

text \<open>
  What is outside the module: the behaviour of the external callables (what they
  raise, what they do to \<open>'s\<close>), the constructor of the entity classes, the clock and
  \<^verbatim>\<open>config.gc_timeout\<close>.
\<close>

record 's env =
  ext :: "call \<Rightarrow> target \<Rightarrow> event \<Rightarrow> 's \<Rightarrow> outcome \<times> 's"
  construct :: "string \<Rightarrow> key \<Rightarrow> 's \<Rightarrow> py_error option"
  clock :: "nat \<Rightarrow> real"
  gc_timeout :: real


section \<open>\<^verbatim>\<open>View.dump\<close> and \<^verbatim>\<open>View.csv\<close>\<close>

text \<open>
  What \<^verbatim>\<open>dump\<close> reads from its collaborators, none of which is part of the module:
  the schema (\<^verbatim>\<open>schema.spec[table].keys()\<close>, the message class
  \<^verbatim>\<open>schema.classes[table]\<close> with its name translations, the placeholder
  \<^verbatim>\<open>schema.plch\<close>, and \<^verbatim>\<open>execute\<close>, which returns the rows or raises), and the
  class attributes of the entity class. The table of the entity class is taken to be
  one that the schema declares, so that the two lookups by table name succeed.
\<close>

record schema =
  columns :: "string \<Rightarrow> string list"
  name2nla :: "string \<Rightarrow> string \<Rightarrow> string"
  nla2name :: "string \<Rightarrow> string \<Rightarrow> string"
  plch :: string
  execute :: "string \<Rightarrow> pyval list \<Rightarrow> py_error + row list"

record iclass =
  table :: string
  event_map :: "(pyclass \<times> string) list"
  dump_stmt :: "string option"
  dump_header :: "row option"
  dump_pre :: "string list"
  dump_post :: "string list"

text \<open>Lines 159-160: the key is replaced by its NLA name when that name is a column.\<close>

definition translate_key :: "schema \<Rightarrow> string \<Rightarrow> string \<Rightarrow> string" where
  "translate_key S tbl key =
     (if name2nla S tbl key \<in> set (columns S tbl) then name2nla S tbl key else key)"

text \<open>The loop over \<^verbatim>\<open>match.items()\<close>, with \<^verbatim>\<open>conditions\<close> and \<^verbatim>\<open>values\<close>.\<close>

fun match_loop :: "schema \<Rightarrow> string \<Rightarrow> (string \<times> pyval) list \<Rightarrow> string list \<Rightarrow> pyval list
    \<Rightarrow> py_error + (string list \<times> pyval list)" where
  "match_loop S tbl [] conditions vals = Inr (conditions, vals)"
| "match_loop S tbl ((key, v) # items) conditions vals =
     (let key' = translate_key S tbl key in
      if key' \<notin> set (columns S tbl) then Inl (KeyError (''key '' @ key' @ '' not found''))
      else match_loop S tbl items (conditions @ [''rs.f_'' @ key' @ '' = '' @ plch S]) (vals @ [v]))"

text \<open>\<^verbatim>\<open>for stmt in stmts: self.ndb.execute(stmt)\<close>\<close>

fun exec_all :: "schema \<Rightarrow> string list \<Rightarrow> row gen" where
  "exec_all S [] = ([], None)"
| "exec_all S (stmt # stmts) =
     (case execute S stmt [] of
        Inl e \<Rightarrow> ([Exec stmt []], Some e)
      | Inr rs \<Rightarrow> gen_then ([Exec stmt []], None) (exec_all S stmts))"

text \<open>\<^verbatim>\<open>for record in self.ndb.execute(stmt, values): yield record\<close>\<close>

definition exec_yield :: "schema \<Rightarrow> string \<Rightarrow> pyval list \<Rightarrow> row gen" where
  "exec_yield S stmt vals =
     (case execute S stmt vals of
        Inl e \<Rightarrow> ([Exec stmt vals], Some e)
      | Inr rs \<Rightarrow> (Exec stmt vals # map Yield rs, None))"

definition str_truthy :: "string option \<Rightarrow> bool" where
  "str_truthy s = (case s of None \<Rightarrow> False | Some t \<Rightarrow> t \<noteq> [])"

definition row_truthy :: "row option \<Rightarrow> bool" where
  "row_truthy r = (case r of None \<Rightarrow> False | Some t \<Rightarrow> t \<noteq> [])"

text \<open>
  \<^verbatim>\<open>View.dump(match)\<close>; \<open>match\<close> is \<open>Some items\<close> for a dict (its items in iteration
  order) and \<open>None\<close> for anything else.
\<close>

definition dump :: "schema \<Rightarrow> iclass \<Rightarrow> (string \<times> pyval) list option \<Rightarrow> row gen" where
  "dump S C match =
     (case (case match of
              Some items \<Rightarrow>
                (case match_loop S (table C) items [] [] of
                   Inl e \<Rightarrow> Inl e
                 | Inr (conditions, vals) \<Rightarrow> Inr ('' WHERE '' @ join '' AND '' conditions, vals))
            | None \<Rightarrow> Inr ([], [])) of
        Inl e \<Rightarrow> ([], Some e)
      | Inr (spec, vals) \<Rightarrow>
          if str_truthy (dump_stmt C) \<and> row_truthy (dump_header C) then
            gen_then ([Yield (the (dump_header C))], None)
              (gen_then (exec_all S (dump_pre C))
                (gen_then (exec_yield S (the (dump_stmt C) @ spec) vals)
                   (exec_all S (dump_post C))))
          else
            gen_then
              ([Yield (PyStr ''target'' # map (\<lambda>x. PyStr (nla2name S (table C) x)) (columns S (table C)))], None)
              (exec_yield S (''SELECT * FROM '' @ table C @ '' AS rs '' @ spec) vals))"

text \<open>The inner loop of \<^verbatim>\<open>csv\<close> over the fields of one record, appending to \<^verbatim>\<open>row\<close>.\<close>

fun csv_fields :: "string list \<Rightarrow> row \<Rightarrow> string list" where
  "csv_fields row [] = row"
| "csv_fields row (field # rest) =
     csv_fields (row @ [case field of
                          PyInt i \<Rightarrow> str_of_int i
                        | PyNone \<Rightarrow> []
                        | PyStr s \<Rightarrow> quote # s @ [quote]
                        | PyObj s \<Rightarrow> quote # s @ [quote]]) rest"

definition csv_line :: "row \<Rightarrow> string" where
  "csv_line record = join '','' (csv_fields [] record)"

text \<open>The outer loop: one line is yielded per record the dump yields; the dump's own
  steps and its exception pass through.\<close>

fun csv_steps :: "row gstep list \<Rightarrow> string gstep list" where
  "csv_steps [] = []"
| "csv_steps (Yield record # steps) = Yield (csv_line record) # csv_steps steps"
| "csv_steps (Exec stmt vals # steps) = Exec stmt vals # csv_steps steps"

definition csv :: "schema \<Rightarrow> iclass \<Rightarrow> (string \<times> pyval) list option \<Rightarrow> row gen option \<Rightarrow> string gen" where
  "csv S C match dump_arg =
     (let d = (case dump_arg of None \<Rightarrow> dump S C match | Some d \<Rightarrow> d)
      in (csv_steps (fst d), snd d))"

text \<open>The rendering of one field and of one row in the words of the specification.\<close>

fun is_int :: "pyval \<Rightarrow> bool" where
  "is_int (PyInt i) = True"
| "is_int v = False"

fun int_of :: "pyval \<Rightarrow> int" where
  "int_of (PyInt i) = i"
| "int_of v = 0"

fun text_of :: "pyval \<Rightarrow> string" where
  "text_of (PyStr s) = s"
| "text_of (PyObj s) = s"
| "text_of v = []"

definition spec_field :: "pyval \<Rightarrow> string" where
  "spec_field f = (if is_int f then str_of_int (int_of f)
                   else if f = PyNone then []
                   else [quote] @ text_of f @ [quote])"

definition spec_csv_line :: "row \<Rightarrow> string" where
  "spec_csv_line record = join '','' (map spec_field record)"


section \<open>Registration and \<^verbatim>\<open>View.__getitem__\<close>\<close>

definition register_handler :: "pyclass \<Rightarrow> handler \<Rightarrow> 's ndb \<Rightarrow> 's ndb" where
  "register_handler ev h s =
     (let m = (case ndb_event_map s ev of None \<Rightarrow> (ndb_event_map s)(ev \<mapsto> []) | Some hs \<Rightarrow> ndb_event_map s)
      in s\<lparr>ndb_event_map := m(ev \<mapsto> (case m ev of None \<Rightarrow> [] | Some hs \<Rightarrow> hs) @ [h])\<rparr>)"

definition handlers_of :: "'s ndb \<Rightarrow> pyclass \<Rightarrow> handler list" where
  "handlers_of s ev = (case ndb_event_map s ev of None \<Rightarrow> [] | Some hs \<Rightarrow> hs)"

text \<open>The loop over \<^verbatim>\<open>ret.event_map.items()\<close>: every entry gets a partial object of its
  own, allocated at the next free address.\<close>

fun register_all :: "nat \<Rightarrow> (pyclass \<times> string) list \<Rightarrow> 's ndb \<Rightarrow> 's ndb" where
  "register_all wr [] s = s"
| "register_all wr ((ev, fname) # items) s =
     register_all wr items
       (register_handler ev (Partial (next_id s) wr fname) (s\<lparr>next_id := next_id s + 1\<rparr>))"

text \<open>
  \<^verbatim>\<open>View.__getitem__(key)\<close>. The constructor of the entity class may raise; otherwise
  the new Handle lives at the next free address, which is what the call returns.
  \<^verbatim>\<open>self.ndb._rtnl_objects.add(wr)\<close> is a set insertion.
\<close>

definition getitem :: "'s env \<Rightarrow> iclass \<Rightarrow> key \<Rightarrow> 's ndb \<Rightarrow> py_error + (nat \<times> 's ndb)" where
  "getitem E C k s =
     (case construct E (table C) k (store s) of
        Some e \<Rightarrow> Inl e
      | None \<Rightarrow>
          (let ret = next_id s;
               s1 = s\<lparr>next_id := ret + 1, alive := (alive s)(ret := True)\<rparr>
           in case ndb_rtnl_objects s1 of
                None \<Rightarrow> Inl AttributeError
              | Some objs \<Rightarrow>
                  Inr (ret, register_all ret (event_map C)
                              (s1\<lparr>ndb_rtnl_objects := Some (List.insert ret objs)\<rparr>))))"


section \<open>The dispatch loop \<^verbatim>\<open>NDB.__dbm__\<close>\<close>

definition default_handler :: "target \<Rightarrow> event \<Rightarrow> 's ndb \<Rightarrow> outcome \<times> 's ndb" where
  "default_handler t e s =
     (case e of
        ExcEvent c \<Rightarrow> (Raised c, s)
      | _ \<Rightarrow> (Returned, s\<lparr>logged := logged s @ [UnsupportedEvent (class_of e)]\<rparr>))"

text \<open>
  \<^verbatim>\<open>wr_handler(wr, fname, *argv)\<close>. In the \<^verbatim>\<open>try\<close>, \<^verbatim>\<open>wr()\<close> is the Handle or
  \<^verbatim>\<open>None\<close>; \<^verbatim>\<open>getattr(None, fname)\<close> raises \<^verbatim>\<open>AttributeError\<close>. The bare
  \<^verbatim>\<open>except\<close> then asks again whether the referent is gone.
\<close>

definition wr_handler :: "'s env \<Rightarrow> nat \<Rightarrow> string \<Rightarrow> target \<Rightarrow> event \<Rightarrow> 's ndb \<Rightarrow> outcome \<times> 's ndb" where
  "wr_handler E wr fname t e s =
     (case (if alive s wr
            then (case ext E (Method wr fname) t e (store s) of (out, st) \<Rightarrow> (out, s\<lparr>store := st\<rparr>))
            else (Raised (OtherException ''AttributeError''), s)) of
        (Returned, s1) \<Rightarrow> (Returned, s1)
      | (Raised c, s1) \<Rightarrow>
          if \<not> alive s1 wr then (Raised InvalidateHandlerException, s1) else (Raised c, s1))"

fun call_handler :: "'s env \<Rightarrow> handler \<Rightarrow> target \<Rightarrow> event \<Rightarrow> 's ndb \<Rightarrow> outcome \<times> 's ndb" where
  "call_handler E SetReady t e s =
     (case e of ReadyEvent \<Rightarrow> (Returned, s\<lparr>dbm_ready := True\<rparr>)
              | _ \<Rightarrow> (Raised (OtherException ''AttributeError''), s))"
| "call_handler E DefaultHandler t e s = default_handler t e s"
| "call_handler E (Partial p wr fname) t e s = wr_handler E wr fname t e s"
| "call_handler E (Callable c) t e s =
     (case ext E (Function c) t e (store s) of (out, st) \<Rightarrow> (out, s\<lparr>store := st\<rparr>))"

text \<open>
  \<^verbatim>\<open>for handler in tuple(handlers): try: ... except ...\<close> for one event. The first list
  is what is left of the snapshot \<^verbatim>\<open>tuple(handlers)\<close>, the second the current content
  of the list \<^verbatim>\<open>handlers\<close>. The result says whether \<^verbatim>\<open>ShutdownException\<close> made the
  loop function return.
\<close>

fun for_handlers :: "'s env \<Rightarrow> target \<Rightarrow> event \<Rightarrow> handler list \<Rightarrow> handler list \<Rightarrow> 's ndb
    \<Rightarrow> bool \<times> handler list \<times> 's ndb" where
  "for_handlers E t e [] hs s = (False, hs, s)"
| "for_handlers E t e (h # snapshot) hs s =
     (case call_handler E h t e (s\<lparr>calls := calls s @ [(h, t, e)]\<rparr>) of
        (Returned, s1) \<Rightarrow> for_handlers E t e snapshot hs s1
      | (Raised InvalidateHandlerException, s1) \<Rightarrow>
          if h \<in> set hs then for_handlers E t e snapshot (remove1 h hs) s1
          else for_handlers E t e snapshot hs (s1\<lparr>logged := logged s1 @ [CouldNotInvalidate h]\<rparr>)
      | (Raised ShutdownException, s1) \<Rightarrow> (True, hs, s1)
      | (Raised (OtherException n), s1) \<Rightarrow>
          for_handlers E t e snapshot hs
            (s1\<lparr>logged := logged s1 @ [CouldNotLoad e (OtherException n)]\<rparr>))"

text \<open>
  One event: \<^verbatim>\<open>handlers = event_map.get(event.__class__, [default_handler, ])\<close> and the
  handler pass. A registered list is the list object of the map, so what the pass
  removes is removed in the map; the default list is a fresh one. Handlers do not see the
  map, so the map is written once the pass is over.
\<close>

definition dispatch_event :: "'s env \<Rightarrow> target \<Rightarrow> event \<Rightarrow> 's ndb \<Rightarrow> bool \<times> 's ndb" where
  "dispatch_event E t e s =
     (let s0 = s\<lparr>dispatched := dispatched s @ [(t, e)]\<rparr> in
      case ndb_event_map s0 (class_of e) of
        None \<Rightarrow>
          (case for_handlers E t e [DefaultHandler] [DefaultHandler] s0 of
             (stop, hs, s1) \<Rightarrow> (stop, s1))
      | Some handlers \<Rightarrow>
          (case for_handlers E t e handlers handlers s0 of
             (stop, hs, s1) \<Rightarrow> (stop, s1\<lparr>ndb_event_map := (ndb_event_map s1)(class_of e \<mapsto> hs)\<rparr>)))"

text \<open>\<^verbatim>\<open>for wr in tuple(self._rtnl_objects): if wr() is None: self._rtnl_objects.remove(wr)\<close>\<close>

fun sweep :: "(nat \<Rightarrow> bool) \<Rightarrow> nat list \<Rightarrow> nat list \<Rightarrow> nat list" where
  "sweep al [] objs = objs"
| "sweep al (wr # snapshot) objs = sweep al snapshot (if \<not> al wr then remove1 wr objs else objs)"

text \<open>The collection check after each event. Reading \<^verbatim>\<open>self._rtnl_objects\<close> before
  the constructor has assigned it raises \<^verbatim>\<open>AttributeError\<close>, outside every \<^verbatim>\<open>try\<close>:
  the result \<open>None\<close>. The thread is dead then, and the two clock readings made before
  are of no further consequence.\<close>

definition gc_check :: "'s env \<Rightarrow> 's ndb \<Rightarrow> 's ndb option" where
  "gc_check E s =
     (let t1 = clock E (ticks s); s1 = s\<lparr>ticks := ticks s + 1\<rparr> in
      if t1 - gctime s1 > gc_timeout E then
        (let t2 = clock E (ticks s1); s2 = s1\<lparr>ticks := ticks s1 + 1, gctime := t2\<rparr> in
         case ndb_rtnl_objects s2 of
           None \<Rightarrow> None
         | Some objs \<Rightarrow> Some (s2\<lparr>ndb_rtnl_objects := Some (sweep (alive s2) objs objs)\<rparr>))
      else Some s1)"

text \<open>\<^verbatim>\<open>for event in events\<close>, the body of one iteration of \<^verbatim>\<open>while True\<close>.\<close>

fun events_loop :: "'s env \<Rightarrow> target \<Rightarrow> event list \<Rightarrow> 's ndb \<Rightarrow> flow \<times> 's ndb" where
  "events_loop E t [] s = (Continue, s)"
| "events_loop E t (e # es) s =
     (case dispatch_event E t e s of
        (True, s1) \<Rightarrow> (Return, s1)
      | (False, s1) \<Rightarrow>
          (case gc_check E s1 of
             None \<Rightarrow> (Crash, s1)
           | Some s2 \<Rightarrow> events_loop E t es s2))"

text \<open>
  \<^verbatim>\<open>while True: target, events = event_queue.get(); ...\<close> run on the batches that the
  queue holds. \<open>Continue\<close> as the result means that the loop is blocked in
  \<^verbatim>\<open>event_queue.get()\<close> on the empty queue.
\<close>

fun dbm_loop :: "'s env \<Rightarrow> (target \<times> event list) list \<Rightarrow> 's ndb \<Rightarrow> flow \<times> 's ndb" where
  "dbm_loop E [] s = (Continue, s)"
| "dbm_loop E ((t, events) # q) s =
     (case events_loop E t events s of
        (Continue, s1) \<Rightarrow> dbm_loop E q s1
      | (Return, s1) \<Rightarrow> (Return, s1)
      | (Crash, s1) \<Rightarrow> (Crash, s1))"



text \<open>
  The handler pass once more, this time giving for every handler that the pass calls the
  state in which it is called: the same loop as \<open>for_handlers\<close>, with the same
  branches; nothing follows the call that raises \<^verbatim>\<open>ShutdownException\<close>.
\<close>

fun pass_states :: "'s env \<Rightarrow> target \<Rightarrow> event \<Rightarrow> handler list \<Rightarrow> handler list \<Rightarrow> 's ndb
    \<Rightarrow> (handler \<times> 's ndb) list" where
  "pass_states E t e [] hs s = []"
| "pass_states E t e (h # snapshot) hs s =
     (h, s\<lparr>calls := calls s @ [(h, t, e)]\<rparr>) #
     (case call_handler E h t e (s\<lparr>calls := calls s @ [(h, t, e)]\<rparr>) of
        (Returned, s1) \<Rightarrow> pass_states E t e snapshot hs s1
      | (Raised InvalidateHandlerException, s1) \<Rightarrow>
          if h \<in> set hs then pass_states E t e snapshot (remove1 h hs) s1
          else pass_states E t e snapshot hs (s1\<lparr>logged := logged s1 @ [CouldNotInvalidate h]\<rparr>)
      | (Raised ShutdownException, s1) \<Rightarrow> []
      | (Raised (OtherException n), s1) \<Rightarrow>
          pass_states E t e snapshot hs
            (s1\<lparr>logged := logged s1 @ [CouldNotLoad e (OtherException n)]\<rparr>))"



section \<open>Shutdown: \<^verbatim>\<open>NDB.close\<close>\<close>

text \<open>
  \<^verbatim>\<open>close\<close> works on \<^verbatim>\<open>self.schema\<close>, the event queue, \<^verbatim>\<open>self._src_threads\<close> and the
  \<^verbatim>\<open>atexit\<close> registration. The calls it makes on the channels, the threads and the
  store are recorded in \<open>ops\<close>, in order. Whether such a call raises is outside the
  module: \<open>X history op\<close> is the exception the call \<open>op\<close> raises after the calls
  \<open>history\<close>, if any. \<^verbatim>\<open>if self.schema\<close> is the truth value of an object or
  \<^verbatim>\<open>None\<close>; the schema object is an ordinary object, true whenever it is there. The
  \<^verbatim>\<open>with self._global_lock\<close> is free again when a call has ended.
\<close>

datatype op = ChannelClose target | ThreadJoin target | DbmJoin | StoreCommit | StoreClose

record facade =
  ndb_schema :: "schema option"
  event_queue :: "(target \<times> event list) list"
  ndb_src_threads :: "target list"
  atexit_registered :: bool
  ops :: "op list"

definition do_op :: "(op list \<Rightarrow> op \<Rightarrow> py_error option) \<Rightarrow> op \<Rightarrow> facade \<Rightarrow> py_error option \<times> facade" where
  "do_op X c s = (X (ops s) c, s\<lparr>ops := ops s @ [c]\<rparr>)"

text \<open>\<^verbatim>\<open>for src in self._src_threads: src.nl.close(); src.join()\<close>\<close>

fun close_sources :: "(op list \<Rightarrow> op \<Rightarrow> py_error option) \<Rightarrow> target list \<Rightarrow> facade
    \<Rightarrow> py_error option \<times> facade" where
  "close_sources X [] s = (None, s)"
| "close_sources X (src # srcs) s =
     (case do_op X (ChannelClose src) s of
        (Some e, s1) \<Rightarrow> (Some e, s1)
      | (None, s1) \<Rightarrow>
          (case do_op X (ThreadJoin src) s1 of
             (Some e, s2) \<Rightarrow> (Some e, s2)
           | (None, s2) \<Rightarrow> close_sources X srcs s2))"

definition close :: "(op list \<Rightarrow> op \<Rightarrow> py_error option) \<Rightarrow> facade \<Rightarrow> py_error option \<times> facade" where
  "close X s =
     (let s0 = s\<lparr>atexit_registered := False\<rparr> in
      case ndb_schema s0 of
        None \<Rightarrow> (None, s0)
      | Some sch \<Rightarrow>
          (let s1 = s0\<lparr>event_queue := event_queue s0 @ [(''localhost'', [ExcEvent ShutdownException])]\<rparr>
           in case close_sources X (ndb_src_threads s1) s1 of
                (Some e, s2) \<Rightarrow> (Some e, s2)
              | (None, s2) \<Rightarrow>
                  (case do_op X DbmJoin s2 of
                     (Some e, s3) \<Rightarrow> (Some e, s3)
                   | (None, s3) \<Rightarrow>
                       (case do_op X StoreCommit s3 of
                          (Some e, s4) \<Rightarrow> (Some e, s4)
                        | (None, s4) \<Rightarrow> do_op X StoreClose s4))))"

text \<open>The calls one full run of \<^verbatim>\<open>close\<close> makes when the schema is there.\<close>

definition close_ops :: "target list \<Rightarrow> op list" where
  "close_ops srcs = concat (map (\<lambda>t. [ChannelClose t, ThreadJoin t]) srcs) @ [DbmJoin, StoreCommit, StoreClose]"


section \<open>The threads of one engine\<close>

text \<open>
  The dispatch thread runs \<^verbatim>\<open>__dbm__\<close>, which calls \<^verbatim>\<open>__initdb__\<close> first; one source
  thread per target runs the local function \<^verbatim>\<open>t\<close> of \<^verbatim>\<open>__initdb__\<close>; caller threads
  construct the engine, ask views for handles, drop handles, and call \<^verbatim>\<open>close\<close>. The
  threads share the event queue, a FIFO whose \<^verbatim>\<open>put\<close> and \<^verbatim>\<open>get\<close> are atomic. A run
  of the system is a sequence of atomic steps, each by one thread, in any order: a
  schedule.

  \<open>world\<close> is what the engine meets: the targets (the keys of \<^verbatim>\<open>self.nl\<close> in iteration
  order), what the dump requests return, what each channel delivers to successive
  \<^verbatim>\<open>channel.get()\<close> calls (a batch of messages, or an exception), which external calls
  fail, and the event map of the schema.
\<close>

datatype kind = Links | Addresses | Neighbours | Routes

datatype origin = SeedDump kind | Incremental | Sentinel

datatype chan_item = Batch "nlmsg list" | GetRaises

datatype tstate = NotStarted | Running | Exited | Killed

datatype phase =
    Opening
  | Seeding "(target \<times> kind) list"
  | Spawning "target list"
  | Readying
  | SchemaInit
  | Looping
  | Finished
  | Died

record world =
  targets :: "target list"
  seed :: "target \<Rightarrow> kind \<Rightarrow> nlmsg list"
  channel :: "target \<Rightarrow> chan_item list"
  open_fails :: bool
  seed_fails :: "target \<Rightarrow> kind \<Rightarrow> bool"
  schema_fails :: bool
  schema_event_map :: "(pyclass \<times> handler list) list"

text \<open>
  \<open>queue\<close> is the content of \<^verbatim>\<open>self._event_queue\<close>, oldest first. \<open>put_log\<close> and
  \<open>taken\<close> are not in the program: the first lists every \<^verbatim>\<open>put\<close> ever made, in order,
  with the place in the program that made it, the second every batch that
  \<^verbatim>\<open>event_queue.get()\<close> has returned to the loop, in order. \<open>dbm_phase\<close> is the point
  the dispatch thread has reached, \<open>thr\<close> the state of each source thread, \<open>chan\<close> what
  each channel has yet to deliver.
\<close>

record 's sys =
  engine :: "'s ndb"
  queue :: "(target \<times> event list) list"
  taken :: "(target \<times> event list) list"
  put_log :: "(origin \<times> target \<times> event list) list"
  dbm_phase :: phase
  schema_set :: bool
  thr :: "target \<Rightarrow> tstate"
  chan :: "target \<Rightarrow> chan_item list"
  src_threads :: "target list"

definition put :: "origin \<Rightarrow> target \<Rightarrow> event list \<Rightarrow> 's sys \<Rightarrow> 's sys" where
  "put og t events s = s\<lparr>queue := queue s @ [(t, events)], put_log := put_log s @ [(og, t, events)]\<rparr>"

text \<open>The four \<^verbatim>\<open>evq.put\<close> of the initial load, for every target in turn.\<close>

definition seed_plan :: "target list \<Rightarrow> (target \<times> kind) list" where
  "seed_plan ts = concat (map (\<lambda>t. [(t, Links), (t, Addresses), (t, Neighbours), (t, Routes)]) ts)"

text \<open>\<^verbatim>\<open>for (event, handlers) in self.schema.event_map.items(): for handler in handlers: ...\<close>\<close>

fun register_schema :: "(pyclass \<times> handler list) \<Rightarrow> 's ndb \<Rightarrow> 's ndb" where
  "register_schema (ev, []) n = n"
| "register_schema (ev, h # hs) n = register_schema (ev, hs) (register_handler ev h n)"

fun register_schemas :: "(pyclass \<times> handler list) list \<Rightarrow> 's ndb \<Rightarrow> 's ndb" where
  "register_schemas [] n = n"
| "register_schemas (item # items) n = register_schemas items (register_schema item n)"









text \<open>The pairs of target and event of a list of batches, in queue order and batch order.\<close>

definition flat :: "(target \<times> event list) list \<Rightarrow> (target \<times> event) list" where
  "flat q = concat (map (\<lambda>(t, events). map (Pair t) events) q)"

text \<open>The netlink messages among them that carry the target \<open>T\<close>.\<close>

definition msgs_for :: "target \<Rightarrow> (target \<times> event) list \<Rightarrow> nlmsg list" where
  "msgs_for T xs = concat (map (\<lambda>(t, e). case e of Msg m \<Rightarrow> if t = T then [m] else [] | _ \<Rightarrow> []) xs)"

definition chan_msgs :: "chan_item list \<Rightarrow> nlmsg list" where
  "chan_msgs items = concat (map (\<lambda>c. case c of Batch b \<Rightarrow> b | GetRaises \<Rightarrow> []) items)"



section \<open>Invariants of the runs\<close>

text \<open>
  For a target \<open>T\<close>: the messages put for it so far (\<open>put_msgs\<close>) and the messages
  that may still be put for it (\<open>future\<close>: the rest of the initial load, then what its
  channel has yet to deliver, as long as its source thread can still run). \<open>side\<close>
  says that a source thread is started once and only after the initial load. \<open>fifo_inv\<close>
  says that the batches taken from the queue followed by those that wait in it are the
  batches put, in the order of the puts, and that what has been dispatched are the events
  of the batches taken, in order, all of them while the loop runs.
  \<open>seed_inv\<close> says where the initial load stands in the list of all puts, and
  \<open>grouped\<close> that the handler calls come in groups, one group of calls with the same
  target and event for each event dispatched, in the order of dispatch.
\<close>

definition seeds_of :: "world \<Rightarrow> target \<Rightarrow> (target \<times> kind) list \<Rightarrow> nlmsg list" where
  "seeds_of W T plan = concat (map (\<lambda>(t, k). if t = T then seed W t k else []) plan)"

definition future :: "world \<Rightarrow> target \<Rightarrow> 's sys \<Rightarrow> nlmsg list" where
  "future W T s =
     (case thr s T of
        NotStarted \<Rightarrow>
          (case dbm_phase s of
             Opening \<Rightarrow> seeds_of W T (seed_plan (targets W)) @ chan_msgs (chan s T)
           | Seeding plan \<Rightarrow> seeds_of W T plan @ chan_msgs (chan s T)
           | Spawning r \<Rightarrow> if T \<in> set r then chan_msgs (chan s T) else []
           | _ \<Rightarrow> [])
      | Running \<Rightarrow> chan_msgs (chan s T)
      | _ \<Rightarrow> [])"

definition put_msgs :: "target \<Rightarrow> 's sys \<Rightarrow> nlmsg list" where
  "put_msgs T s = msgs_for T (flat (map snd (put_log s)))"

definition side :: "target \<Rightarrow> 's sys \<Rightarrow> bool" where
  "side T s =
     ((dbm_phase s = Opening \<or> (\<exists>plan. dbm_phase s = Seeding plan) \<longrightarrow> thr s T = NotStarted)
      \<and> (\<forall>r. dbm_phase s = Spawning r \<longrightarrow> distinct r \<and> (T \<in> set r \<longrightarrow> thr s T = NotStarted)))"





section \<open>Sample configurations\<close>

text \<open>
  Concrete inputs on which the theorems below are evaluated. In \<open>quiet_env\<close> every
  external callable returns normally and leaves the store alone; in \<open>faulty_env\<close> the
  callable \<open>Function 1\<close> raises \<^verbatim>\<open>ValueError\<close>. \<open>started_ndb\<close> is an engine whose
  constructor has returned: the event map holds the handler of the readiness barrier, the
  set of tracked handles is empty, no Handle is alive.
\<close>

definition quiet_env :: "unit env" where
  "quiet_env = \<lparr>ext = (\<lambda>c t e st. (Returned, st)), construct = (\<lambda>tb k st. None),
                 clock = (\<lambda>n. 0), gc_timeout = 60\<rparr>"

definition faulty_env :: "unit env" where
  "faulty_env = \<lparr>ext = (\<lambda>c t e st. (if c = Function 1 then Raised (OtherException ''ValueError'')
                                       else Returned, st)),
                  construct = (\<lambda>tb k st. None), clock = (\<lambda>n. 0), gc_timeout = 60\<rparr>"

definition started_ndb :: "unit ndb" where
  "started_ndb = \<lparr>ndb_event_map = [ThreadingEvent \<mapsto> [SetReady]], ndb_rtnl_objects = Some [],
                   alive = (\<lambda>a. False), next_id = 0, store = (), dbm_ready = True, gctime = 0,
                   ticks = 0, logged = [], dispatched = [], calls = []\<rparr>"

text \<open>An engine with two Handles, the one at address 3 no longer reachable, the one at
  address 4 alive, and five handlers for one class of message: a callable that is
  registered twice, the weak-bound handlers of the two Handles, and the callable that
  raises \<^verbatim>\<open>ValueError\<close> in \<open>faulty_env\<close>.\<close>

definition two_handles :: "unit ndb" where
  "two_handles = started_ndb\<lparr>alive := (\<lambda>a. a = 4),
      ndb_event_map := [MsgClass ''ifinfmsg'' \<mapsto>
        [Callable 7, Partial 5 3 ''load_rtnlmsg'', Partial 6 4 ''load_rtnlmsg'', Callable 1, Callable 7]]\<rparr>"

definition ifinfmsg :: "nat \<Rightarrow> event" where
  "ifinfmsg n = Msg (Nlmsg ''ifinfmsg'' None n)"

definition Interface :: iclass where
  "Interface = \<lparr>table = ''interfaces'', event_map = [(MsgClass ''ifinfmsg'', ''load_rtnlmsg'')],
                 dump_stmt = None, dump_header = None, dump_pre = [], dump_post = []\<rparr>"

text \<open>An engine in service with the one default target, and a schema object for it;
  channels, threads and a store whose calls never raise, and a store that refuses a
  commit once it has been closed.\<close>

definition sample_schema :: schema where
  "sample_schema = \<lparr>columns = (\<lambda>t. [''index'', ''IFLA_IFNAME'']), name2nla = (\<lambda>t k. ''IFLA_'' @ k),
                     nla2name = (\<lambda>t k. k), plch = ''?'', execute = (\<lambda>q vs. Inr [])\<rparr>"

definition never_raises :: "op list \<Rightarrow> op \<Rightarrow> py_error option" where
  "never_raises history c = None"

definition closed_store_raises :: "op list \<Rightarrow> op \<Rightarrow> py_error option" where
  "closed_store_raises history c =
     (if c = StoreCommit \<and> StoreClose \<in> set history then Some (StoreError ''closed'') else None)"

definition running_facade :: facade where
  "running_facade = \<lparr>ndb_schema = Some sample_schema, event_queue = [],
                      ndb_src_threads = [''localhost''], atexit_registered = True, ops = []\<rparr>"





section \<open>Decimal text of integers\<close>

lemma digit_char_props:
  "d < 10 \<Longrightarrow> is_digit (digit_char d) \<and> digit_val (digit_char d) = d \<and> digit_char d \<noteq> CHR ''_''
     \<and> \<not> is_space (digit_char d) \<and> digit_char d \<noteq> CHR ''-'' \<and> digit_char d \<noteq> CHR ''+''
     \<and> digit_char d \<noteq> CHR ''V'' \<and> lower_char (digit_char d) = digit_char d"
proof -
  have "\<forall>d \<in> {0..<10}. is_digit (digit_char d) \<and> digit_val (digit_char d) = d \<and> digit_char d \<noteq> CHR ''_''
     \<and> \<not> is_space (digit_char d) \<and> digit_char d \<noteq> CHR ''-'' \<and> digit_char d \<noteq> CHR ''+''
     \<and> digit_char d \<noteq> CHR ''V'' \<and> lower_char (digit_char d) = digit_char d"
    by code_simp
  then show "d < 10 \<Longrightarrow> ?thesis" by simp
qed

lemma nat_digits_all: "c \<in> set (nat_digits n) \<Longrightarrow> \<exists>d<10. c = digit_char d"
proof (induction n rule: nat_digits.induct)
  case (1 n)
  show ?case
  proof (cases "n < 10")
    case True
    with 1(2) show ?thesis by (auto simp: nat_digits.simps[of n])
  next
    case False
    with 1 show ?thesis
      by (auto simp: nat_digits.simps[of n] intro: exI[of _ "n mod 10"])
  qed
qed

lemma nat_digits_nonempty: "nat_digits n \<noteq> []"
  by (subst nat_digits.simps) simp

lemma digits_val_append: "digits_val acc (xs @ [c]) = 10 * digits_val acc xs + digit_val c"
  by (induction xs arbitrary: acc) auto

lemma digits_val_nat_digits: "digits_val 0 (nat_digits n) = n"
proof (induction n rule: nat_digits.induct)
  case (1 n)
  show ?case
  proof (cases "n < 10")
    case True
    then show ?thesis by (simp add: nat_digits.simps[of n] digit_char_props)
  next
    case False
    with 1 show ?thesis
      by (simp add: nat_digits.simps[of n] digits_val_append digit_char_props)
  qed
qed

lemma parse_nat_digits: "parse_digits (nat_digits n) = Inr n"
  using nat_digits_all[of _ n] digit_char_props
  by (auto simp: parse_digits_def nat_digits_nonempty digits_val_nat_digits list_all_iff)

lemma lower_nat_digits: "lower (nat_digits n) = nat_digits n"
  unfolding lower_def using nat_digits_all[of _ n] digit_char_props
  by (intro map_idI) auto

lemma dropWhile_id: "xs \<noteq> [] \<Longrightarrow> \<not> P (hd xs) \<Longrightarrow> dropWhile P xs = xs"
  by (cases xs) auto

lemma strip_id: "xs \<noteq> [] \<Longrightarrow> \<not> is_space (hd xs) \<Longrightarrow> \<not> is_space (last xs) \<Longrightarrow> strip xs = xs"
  by (simp add: strip_def dropWhile_id hd_rev)

lemma not_space_minus: "\<not> is_space CHR ''-''"
  by code_simp

lemma hd_nat_digits: "\<exists>d<10. hd (nat_digits n) = digit_char d"
  using nat_digits_all[of "hd (nat_digits n)" n] nat_digits_nonempty by simp

lemma last_nat_digits: "\<exists>d<10. last (nat_digits n) = digit_char d"
  using nat_digits_all[of "last (nat_digits n)" n] nat_digits_nonempty by simp

lemma py_int_nat_digits: "py_int (nat_digits n) = Inr (int n)"
proof -
  obtain d where d: "d < 10" "hd (nat_digits n) = digit_char d" using hd_nat_digits by blast
  obtain e where e: "e < 10" "last (nat_digits n) = digit_char e" using last_nat_digits by blast
  have s: "strip (nat_digits n) = nat_digits n"
    using d e digit_char_props by (intro strip_id) (auto simp: nat_digits_nonempty)
  obtain c cs where c: "nat_digits n = c # cs" using nat_digits_nonempty by (cases "nat_digits n") auto
  with d have "c = digit_char d" by simp
  with d digit_char_props have "c \<noteq> CHR ''-''" "c \<noteq> CHR ''+''" by auto
  then show ?thesis
    using parse_nat_digits[of n] s by (simp add: py_int_def c)
qed

lemma py_int_neg_digits: "py_int (CHR ''-'' # nat_digits n) = Inr (- int n)"
proof -
  obtain e where e: "e < 10" "last (nat_digits n) = digit_char e" using last_nat_digits by blast
  have s: "strip (CHR ''-'' # nat_digits n) = CHR ''-'' # nat_digits n"
    using e digit_char_props not_space_minus by (intro strip_id) (auto simp: nat_digits_nonempty)
  show ?thesis by (simp add: py_int_def s parse_nat_digits)
qed

lemma lower_minus: "lower_char CHR ''-'' = CHR ''-''"
  by code_simp

lemma str_of_int_roundtrip: "py_int (lower (str_of_int i)) = Inr i"
  by (auto simp: str_of_int_def lower_nat_digits py_int_nat_digits py_int_neg_digits
      lower_minus lower_def[of "_ # _"] lower_def[symmetric])

lemma last_part_no_sep: "sep \<notin> set s \<Longrightarrow> last_part sep cur s = cur @ s"
  by (induction s arbitrary: cur) auto

lemma last_part_append: "sep \<notin> set s \<Longrightarrow> last_part sep cur (p @ sep # s) = s"
  by (induction p arbitrary: cur) (auto simp: last_part_no_sep)

lemma nat_digits_no_us: "CHR ''_'' \<notin> set (nat_digits n)"
proof
  assume "CHR ''_'' \<in> set (nat_digits n)"
  then obtain d where "d < 10" "CHR ''_'' = digit_char d" using nat_digits_all by blast
  then show False using digit_char_props[of d] by simp
qed

lemma str_of_int_no_us: "CHR ''_'' \<notin> set (str_of_int i)"
  by (simp add: str_of_int_def nat_digits_no_us)

lemma split_last_prefix: "split_last CHR ''_'' (p @ CHR ''_'' # str_of_int i) = str_of_int i"
  by (simp add: split_last_def last_part_append str_of_int_no_us)

lemma str_of_int_nonempty: "str_of_int i \<noteq> []"
  by (simp add: str_of_int_def nat_digits_nonempty)

lemma str_of_int_not_verdict: "str_of_int i \<noteq> ''VERDICT''"
proof
  assume a: "str_of_int i = ''VERDICT''"
  show False
  proof (cases "i < 0")
    case True
    with a show False by (simp add: str_of_int_def)
  next
    case False
    with a have "CHR ''V'' \<in> set (nat_digits (nat i))" by (simp add: str_of_int_def)
    then obtain d where "d < 10" "CHR ''V'' = digit_char d" using nat_digits_all by blast
    then show False using digit_char_props[of d] by simp
  qed
qed

text \<open>
  The round trip through the netlink name returns the register number for every number
  below 8 (negative ones included) and the number plus 8 from 8 on.
\<close>

lemma from_to_netlink: "from_netlink (to_netlink n) = Inr (if n < 8 then n else n + 8)"
proof -
  have a: "split_last CHR ''_'' (''NFT_REG_'' @ str_of_int n) = str_of_int n"
    using split_last_prefix[of "''NFT_REG''" n] by simp
  have b: "split_last CHR ''_'' (''NFT_REG32_'' @ str_of_int n) = str_of_int n"
    using split_last_prefix[of "''NFT_REG32''" n] by simp
  consider "n = 0" | "n \<noteq> 0" "n < 8" | "8 \<le> n" by linarith
  then show ?thesis
  proof cases
    case 1
    then show ?thesis by (simp add: to_netlink_def from_netlink_def)
  next
    case 2
    have "from_netlink (''NFT_REG_'' @ str_of_int n) = Inr n"
      unfolding from_netlink_def a str_of_int_roundtrip
      by (simp add: str_of_int_not_verdict)
    with 2 show ?thesis by (simp add: to_netlink_def)
  next
    case 3
    have "from_netlink (''NFT_REG32_'' @ str_of_int n) = Inr (n + 8)"
      unfolding from_netlink_def b str_of_int_roundtrip
      by simp
    with 3 show ?thesis by (simp add: to_netlink_def)
  qed
qed



text \<open>
  C10. \<^verbatim>\<open>NFTReg.to_netlink\<close> names register 8 \<^verbatim>\<open>NFT_REG32_8\<close>, and
  \<^verbatim>\<open>NFTReg.from_netlink\<close> reads that name as register 16: it adds the offset 8 of the
  32-bit registers, which \<^verbatim>\<open>to_netlink\<close> does not take off. The round trip does not
  return the number it started from.
\<close>

theorem NFTReg_roundtrip_at_8:
  "to_netlink 8 = ''NFT_REG32_8'' \<and> from_netlink (to_netlink 8) = Inr 16
    \<and> from_netlink ''NFT_REG32_00'' = Inr 8"
  by code_simp


section \<open>\<^verbatim>\<open>View.csv\<close>: rendering of rows\<close>

lemma lower_str_of_int: "lower (str_of_int i) = str_of_int i"
  by (simp add: str_of_int_def lower_nat_digits lower_minus lower_def[of "_ # _"] lower_def[symmetric])

lemma csv_fields_map: "csv_fields row r = row @ map spec_field r"
proof (induction r arbitrary: row)
  case Nil
  then show ?case by simp
next
  case (Cons f fs)
  show ?case by (cases f) (simp_all add: Cons.IH spec_field_def)
qed

lemma csv_steps_yields:
  "[l. Yield l \<leftarrow> csv_steps steps] = map csv_line [r. Yield r \<leftarrow> steps]"
  by (induction steps rule: csv_steps.induct) simp_all

text \<open>
  C8. \<^verbatim>\<open>View.csv\<close> renders a record as its fields joined by commas, where an int is its
  decimal text without quotes (text that \<^verbatim>\<open>int\<close> reads back as the same number),
  \<^verbatim>\<open>None\<close> is the empty string and every other field is wrapped in single quotes; one
  line is yielded per record of the dump, in order; and the record
  \<^verbatim>\<open>('localhost', 1, 'lo', None, 65609)\<close> gives \<^verbatim>\<open>'localhost',1,'lo',,65609\<close>.
\<close>

theorem csv_rendering:
  "csv_line record = spec_csv_line record
   \<and> spec_field (PyInt i) = str_of_int i
   \<and> py_int (str_of_int i) = Inr i
   \<and> spec_field PyNone = []
   \<and> spec_field (PyStr s) = [quote] @ s @ [quote]
   \<and> spec_field (PyObj s) = [quote] @ s @ [quote]
   \<and> [l. Yield l \<leftarrow> fst (csv S C m (Some (map Yield records, None)))] = map csv_line records
   \<and> csv_line [PyStr ''localhost'', PyInt 1, PyStr ''lo'', PyNone, PyInt 65609]
       = [quote] @ ''localhost'' @ [quote] @ '',1,'' @ [quote] @ ''lo'' @ [quote] @ '',,65609''"
proof -
  have a: "csv_line record = spec_csv_line record"
    by (simp add: csv_line_def spec_csv_line_def csv_fields_map)
  have b: "py_int (str_of_int i) = Inr i"
    using str_of_int_roundtrip[of i] by (simp add: lower_str_of_int)
  have c: "[l. Yield l \<leftarrow> fst (csv S C m (Some (map Yield records, None)))] = map csv_line records"
    by (simp add: csv_def csv_steps_yields) (induction records, simp_all)
  have d: "csv_line [PyStr ''localhost'', PyInt 1, PyStr ''lo'', PyNone, PyInt 65609]
       = [quote] @ ''localhost'' @ [quote] @ '',1,'' @ [quote] @ ''lo'' @ [quote] @ '',,65609''"
    by (simp add: csv_line_def str_of_int_def nat_digits.simps digit_char_def quote_def)
  have e: "spec_field (PyInt i) = str_of_int i \<and> spec_field PyNone = []
      \<and> spec_field (PyStr s) = [quote] @ s @ [quote] \<and> spec_field (PyObj s) = [quote] @ s @ [quote]"
    by (simp add: spec_field_def)
  from a b c d e show ?thesis by (intro conjI) (elim conjE, assumption)+
qed


section \<open>\<^verbatim>\<open>View.dump\<close>: unknown keys\<close>

lemma match_loop_bad_key:
  "(k, v) \<in> set items \<Longrightarrow> translate_key S tbl k \<notin> set (columns S tbl)
   \<Longrightarrow> \<exists>k'. match_loop S tbl items conds vals = Inl (KeyError (''key '' @ k' @ '' not found''))
          \<and> k' \<notin> set (columns S tbl)"
proof (induction items arbitrary: conds vals)
  case Nil
  then show ?case by simp
next
  case (Cons it items)
  obtain key val where it: "it = (key, val)" by (cases it)
  show ?case
  proof (cases "translate_key S tbl key \<in> set (columns S tbl)")
    case True
    with Cons.prems it have "(k, v) \<in> set items" by auto
    from Cons.IH[OF this Cons.prems(2)] True it show ?thesis by (simp add: Let_def)
  next
    case False
    then show ?thesis using it by (auto simp: Let_def)
  qed
qed

text \<open>
  C9. When the match dict has an item whose key, after the translation step of lines
  159-160 (the NLA name if that is a column, else the key as given), is not a column of
  the table, the generator of \<^verbatim>\<open>View.dump\<close> raises \<^verbatim>\<open>KeyError\<close> for a key that is
  not a column, before any step: no statement has been executed on the store and nothing
  has been yielded. The body of a generator runs in the thread that iterates it.
\<close>

theorem dump_bad_key:
  assumes "(k, v) \<in> set items" and "translate_key S (table C) k \<notin> set (columns S (table C))"
  shows "\<exists>k'. dump S C (Some items) = ([], Some (KeyError (''key '' @ k' @ '' not found'')))
          \<and> k' \<notin> set (columns S (table C))"
proof -
  from match_loop_bad_key[OF assms, of "[]" "[]"]
  obtain k' where "match_loop S (table C) items [] [] = Inl (KeyError (''key '' @ k' @ '' not found''))"
     "k' \<notin> set (columns S (table C))" by blast
  then show ?thesis by (auto simp: dump_def)
qed


theorem dump_bad_key_witness:
  "(''bogus'', PyInt 1) \<in> set [(''IFNAME'', PyStr ''lo''), (''bogus'', PyInt 1)]
   \<and> translate_key sample_schema (table Interface) ''bogus'' \<notin> set (columns sample_schema (table Interface))
   \<and> dump sample_schema Interface (Some [(''IFNAME'', PyStr ''lo''), (''bogus'', PyInt 1)])
       = ([], Some (KeyError ''key bogus not found''))"
  using dump_bad_key[of "''bogus''" "PyInt 1" "[(''IFNAME'', PyStr ''lo''), (''bogus'', PyInt 1)]"
      sample_schema Interface]
  by (simp add: translate_key_def dump_def Let_def sample_schema_def Interface_def)


section \<open>The handler pass of the dispatch loop\<close>

text \<open>What a handler call leaves unchanged.\<close>

lemma default_handler_frame:
  "default_handler t e s = (out, s') \<Longrightarrow>
     alive s' = alive s \<and> ndb_event_map s' = ndb_event_map s \<and> ndb_rtnl_objects s' = ndb_rtnl_objects s
     \<and> dispatched s' = dispatched s \<and> calls s' = calls s \<and> next_id s' = next_id s
     \<and> gctime s' = gctime s \<and> ticks s' = ticks s \<and> store s' = store s"
  by (auto simp: default_handler_def split: event.splits)

lemma wr_handler_frame:
  "wr_handler E wr f t e s = (out, s') \<Longrightarrow>
     alive s' = alive s \<and> ndb_event_map s' = ndb_event_map s \<and> ndb_rtnl_objects s' = ndb_rtnl_objects s
     \<and> dispatched s' = dispatched s \<and> calls s' = calls s \<and> next_id s' = next_id s
     \<and> gctime s' = gctime s \<and> ticks s' = ticks s \<and> logged s' = logged s"
  by (auto simp: wr_handler_def split: prod.splits outcome.splits if_splits)

lemma call_handler_frame:
  "call_handler E h t e s = (out, s') \<Longrightarrow>
     alive s' = alive s \<and> ndb_event_map s' = ndb_event_map s \<and> ndb_rtnl_objects s' = ndb_rtnl_objects s
     \<and> dispatched s' = dispatched s \<and> calls s' = calls s \<and> next_id s' = next_id s
     \<and> gctime s' = gctime s \<and> ticks s' = ticks s"
proof (cases h)
  case SetReady
  assume "call_handler E h t e s = (out, s')"
  with SetReady show ?thesis by (auto split: event.splits)
next
  case DefaultHandler
  assume "call_handler E h t e s = (out, s')"
  with DefaultHandler show ?thesis using default_handler_frame[of t e s out s'] by simp
next
  case (Partial p wr f)
  assume "call_handler E h t e s = (out, s')"
  with Partial show ?thesis using wr_handler_frame[of E wr f t e s out s'] by simp
next
  case (Callable c)
  assume "call_handler E h t e s = (out, s')"
  with Callable show ?thesis by (auto split: prod.splits)
qed

lemma wr_handler_dead:
  "\<not> alive s wr \<Longrightarrow> wr_handler E wr f t e s = (Raised InvalidateHandlerException, s)"
  by (simp add: wr_handler_def)

lemma wr_handler_alive:
  "alive s wr \<Longrightarrow> wr_handler E wr f t e s
     = (case ext E (Method wr f) t e (store s) of (out, st) \<Rightarrow> (out, s\<lparr>store := st\<rparr>))"
  by (auto simp: wr_handler_def split: prod.splits outcome.splits)

lemma count_list_remove1_same:
  "x \<in> set xs \<Longrightarrow> count_list (remove1 x xs) x = count_list xs x - 1"
  by (induction xs) auto

lemma filter_remove1_same:
  "filter (\<lambda>g. g \<noteq> x) (remove1 x xs) = filter (\<lambda>g. g \<noteq> x) xs"
  by (induction xs) auto

lemma for_handlers_dead_removed:
  assumes "\<not> alive s wr"
    and "count_list cur (Partial p wr f) = count_list snap (Partial p wr f)"
    and "\<forall>(g, sg)\<in>set (pass_states E t e snap cur s). g \<noteq> Partial p wr f \<longrightarrow>
           fst (call_handler E g t e sg) \<noteq> Raised InvalidateHandlerException
           \<and> fst (call_handler E g t e sg) \<noteq> Raised ShutdownException"
  shows "\<exists>s'. for_handlers E t e snap cur s = (False, filter (\<lambda>g. g \<noteq> Partial p wr f) cur, s')
         \<and> calls s' = calls s @ map (\<lambda>g. (g, t, e)) snap
         \<and> alive s' = alive s \<and> ndb_event_map s' = ndb_event_map s
         \<and> dispatched s' = dispatched s"
  using assms
proof (induction snap arbitrary: cur s)
  case Nil
  then have "Partial p wr f \<notin> set cur" by (simp add: count_list_0_iff)
  then have "filter (\<lambda>g. g \<noteq> Partial p wr f) cur = cur" by (induction cur) auto
  then show ?case by simp
next
  case (Cons g snap)
  let ?h = "Partial p wr f"
  let ?s0 = "s\<lparr>calls := calls s @ [(g, t, e)]\<rparr>"
  show ?case
  proof (cases "g = ?h")
    case True
    have c: "call_handler E g t e ?s0 = (Raised InvalidateHandlerException, ?s0)"
      using True Cons.prems(1) by (simp add: wr_handler_dead)
    have pos: "count_list cur ?h = Suc (count_list snap ?h)" using Cons.prems(2) True by simp
    then have inhs: "?h \<in> set cur" by (metis count_list_0_iff nat.distinct(1))
    have cnt: "count_list (remove1 ?h cur) ?h = count_list snap ?h"
      using pos inhs by (simp add: count_list_remove1_same)
    have ps: "pass_states E t e (g # snap) cur s = (g, ?s0) # pass_states E t e snap (remove1 ?h cur) ?s0"
      using c True inhs by simp
    have oth: "\<forall>(g, sg)\<in>set (pass_states E t e snap (remove1 ?h cur) ?s0). g \<noteq> ?h \<longrightarrow>
           fst (call_handler E g t e sg) \<noteq> Raised InvalidateHandlerException
           \<and> fst (call_handler E g t e sg) \<noteq> Raised ShutdownException"
      using Cons.prems(3) unfolding ps by simp
    have d: "\<not> alive ?s0 wr" using Cons.prems(1) by simp
    from Cons.IH[OF d cnt oth] obtain s' where
      "for_handlers E t e snap (remove1 ?h cur) ?s0 = (False, filter (\<lambda>g. g \<noteq> ?h) (remove1 ?h cur), s')"
      "calls s' = calls ?s0 @ map (\<lambda>g. (g, t, e)) snap" "alive s' = alive ?s0"
      "ndb_event_map s' = ndb_event_map ?s0" "dispatched s' = dispatched ?s0" by blast
    then show ?thesis using c True inhs by (simp add: filter_remove1_same)
  next
    case False
    obtain out s1 where c: "call_handler E g t e ?s0 = (out, s1)" by (cases "call_handler E g t e ?s0")
    note fr = call_handler_frame[OF c]
    have hd: "(g, ?s0) \<in> set (pass_states E t e (g # snap) cur s)" by simp
    with Cons.prems(3) False c have o: "out \<noteq> Raised InvalidateHandlerException" "out \<noteq> Raised ShutdownException"
      by auto
    have cnt: "count_list cur ?h = count_list snap ?h" using Cons.prems(2) False by simp
    show ?thesis
    proof (cases out)
      case Returned
      have ps: "pass_states E t e (g # snap) cur s = (g, ?s0) # pass_states E t e snap cur s1"
        using c Returned by simp
      have oth: "\<forall>(g, sg)\<in>set (pass_states E t e snap cur s1). g \<noteq> ?h \<longrightarrow>
           fst (call_handler E g t e sg) \<noteq> Raised InvalidateHandlerException
           \<and> fst (call_handler E g t e sg) \<noteq> Raised ShutdownException"
        using Cons.prems(3) unfolding ps by simp
      have d: "\<not> alive s1 wr" using Cons.prems(1) fr by simp
      from Cons.IH[OF d cnt oth] obtain s' where
        "for_handlers E t e snap cur s1 = (False, filter (\<lambda>g. g \<noteq> ?h) cur, s')"
        "calls s' = calls s1 @ map (\<lambda>g. (g, t, e)) snap" "alive s' = alive s1"
        "ndb_event_map s' = ndb_event_map s1" "dispatched s' = dispatched s1" by blast
      then show ?thesis using c Returned fr by simp
    next
      case (Raised x)
      with o obtain n where x: "x = OtherException n" by (cases x) auto
      let ?s2 = "s1\<lparr>logged := logged s1 @ [CouldNotLoad e (OtherException n)]\<rparr>"
      have ps: "pass_states E t e (g # snap) cur s = (g, ?s0) # pass_states E t e snap cur ?s2"
        using c Raised x by simp
      have oth: "\<forall>(g, sg)\<in>set (pass_states E t e snap cur ?s2). g \<noteq> ?h \<longrightarrow>
           fst (call_handler E g t e sg) \<noteq> Raised InvalidateHandlerException
           \<and> fst (call_handler E g t e sg) \<noteq> Raised ShutdownException"
        using Cons.prems(3) unfolding ps by simp
      have d: "\<not> alive ?s2 wr" using Cons.prems(1) fr by simp
      from Cons.IH[OF d cnt oth] obtain s' where
        "for_handlers E t e snap cur ?s2 = (False, filter (\<lambda>g. g \<noteq> ?h) cur, s')"
        "calls s' = calls ?s2 @ map (\<lambda>g. (g, t, e)) snap" "alive s' = alive ?s2"
        "ndb_event_map s' = ndb_event_map ?s2" "dispatched s' = dispatched ?s2" by blast
      then show ?thesis using c Raised x fr by simp
    qed
  qed
qed

lemma pass_states_calls:
  "calls (snd (snd (for_handlers E t e snap hs s)))
     = calls s @ map (\<lambda>(g, sg). (g, t, e)) (pass_states E t e snap hs s)"
proof (induction snap arbitrary: hs s)
  case Nil
  show ?case by simp
next
  case (Cons g snap)
  let ?s0 = "s\<lparr>calls := calls s @ [(g, t, e)]\<rparr>"
  obtain out s1 where c: "call_handler E g t e ?s0 = (out, s1)" by (cases "call_handler E g t e ?s0")
  from call_handler_frame[OF c] have k: "calls s1 = calls s @ [(g, t, e)]" by simp
  show ?case
  proof (cases out)
    case Returned
    with c k Cons.IH[of hs s1] show ?thesis by simp
  next
    case (Raised x)
    show ?thesis
    proof (cases x)
      case ShutdownException
      with Raised c k show ?thesis by simp
    next
      case InvalidateHandlerException
      with Raised c k Cons.IH[of "remove1 g hs" s1]
        Cons.IH[of hs "s1\<lparr>logged := logged s1 @ [CouldNotInvalidate g]\<rparr>"]
      show ?thesis by simp
    next
      case (OtherException n)
      with Raised c k Cons.IH[of hs "s1\<lparr>logged := logged s1 @ [CouldNotLoad e (OtherException n)]\<rparr>"]
      show ?thesis by simp
    qed
  qed
qed

text \<open>
  C6. A weak-bound handler called when its referent is gone reports
  \<^verbatim>\<open>InvalidateHandlerException\<close> and changes nothing; called while the referent is alive
  it ends as the method ends, so an exception of the method is raised unchanged. In the
  handler pass for an event over the list registered for its class, let the referent of
  one weak-bound handler of the list be gone, and let no other handler, in the state in
  which the pass calls it, raise one of the two control exceptions (it may return or
  raise anything else; it may be the weak-bound handler of a Handle that is alive, or a
  callable that is registered twice). Then the pass removes that handler from the list
  of the event's class and no other, keeps the order of the rest, calls every handler of
  the list (those after the removed one too), and does not stop the loop.
\<close>

theorem weak_handler_invalidation:
  "wr_handler E wr f t e s =
     (if alive s wr
      then (case ext E (Method wr f) t e (store s) of (out, st) \<Rightarrow> (out, s\<lparr>store := st\<rparr>))
      else (Raised InvalidateHandlerException, s))
   \<and> (\<not> alive s wr \<and> ndb_event_map s (class_of e) = Some hs \<and> Partial p wr f \<in> set hs
      \<and> (\<forall>(g, sg)\<in>set (pass_states E t e hs hs (s\<lparr>dispatched := dispatched s @ [(t, e)]\<rparr>)).
            g \<noteq> Partial p wr f \<longrightarrow>
              fst (call_handler E g t e sg) \<noteq> Raised InvalidateHandlerException
              \<and> fst (call_handler E g t e sg) \<noteq> Raised ShutdownException)
        \<longrightarrow> fst (dispatch_event E t e s) = False
          \<and> ndb_event_map (snd (dispatch_event E t e s)) (class_of e) = Some (filter (\<lambda>g. g \<noteq> Partial p wr f) hs)
          \<and> calls (snd (dispatch_event E t e s)) = calls s @ map (\<lambda>g. (g, t, e)) hs)"
proof (intro conjI impI)
  show "wr_handler E wr f t e s =
     (if alive s wr
      then (case ext E (Method wr f) t e (store s) of (out, st) \<Rightarrow> (out, s\<lparr>store := st\<rparr>))
      else (Raised InvalidateHandlerException, s))"
    by (simp add: wr_handler_alive wr_handler_dead)
next
  let ?h = "Partial p wr f"
  let ?s0 = "s\<lparr>dispatched := dispatched s @ [(t, e)]\<rparr>"
  assume a: "\<not> alive s wr \<and> ndb_event_map s (class_of e) = Some hs \<and> ?h \<in> set hs
      \<and> (\<forall>(g, sg)\<in>set (pass_states E t e hs hs ?s0).
            g \<noteq> ?h \<longrightarrow>
              fst (call_handler E g t e sg) \<noteq> Raised InvalidateHandlerException
              \<and> fst (call_handler E g t e sg) \<noteq> Raised ShutdownException)"
  then have d: "\<not> alive ?s0 wr" by simp
  from a have oth: "\<forall>(g, sg)\<in>set (pass_states E t e hs hs ?s0).
            g \<noteq> ?h \<longrightarrow>
              fst (call_handler E g t e sg) \<noteq> Raised InvalidateHandlerException
              \<and> fst (call_handler E g t e sg) \<noteq> Raised ShutdownException" by blast
  from for_handlers_dead_removed[OF d refl oth]
  obtain s' where s': "for_handlers E t e hs hs ?s0 = (False, filter (\<lambda>g. g \<noteq> ?h) hs, s')"
     "calls s' = calls ?s0 @ map (\<lambda>g. (g, t, e)) hs" "ndb_event_map s' = ndb_event_map ?s0"
    by blast
  have dd: "dispatch_event E t e s
      = (False, s'\<lparr>ndb_event_map := (ndb_event_map s')(class_of e \<mapsto> filter (\<lambda>g. g \<noteq> ?h) hs)\<rparr>)"
    using a s' by (simp add: dispatch_event_def Let_def)
  show "fst (dispatch_event E t e s) = False" by (simp add: dd)
  show "ndb_event_map (snd (dispatch_event E t e s)) (class_of e) = Some (filter (\<lambda>g. g \<noteq> ?h) hs)"
    by (simp add: dd)
  show "calls (snd (dispatch_event E t e s)) = calls s @ map (\<lambda>g. (g, t, e)) hs"
    using s' by (simp add: dd)
qed

theorem weak_handler_invalidation_witness:
  "\<not> alive two_handles 3 \<and> alive two_handles 4
   \<and> ndb_event_map two_handles (class_of (ifinfmsg 0))
       = Some [Callable 7, Partial 5 3 ''load_rtnlmsg'', Partial 6 4 ''load_rtnlmsg'', Callable 1, Callable 7]
   \<and> fst (dispatch_event faulty_env ''localhost'' (ifinfmsg 0) two_handles) = False
   \<and> ndb_event_map (snd (dispatch_event faulty_env ''localhost'' (ifinfmsg 0) two_handles)) (MsgClass ''ifinfmsg'')
       = Some [Callable 7, Partial 6 4 ''load_rtnlmsg'', Callable 1, Callable 7]
   \<and> calls (snd (dispatch_event faulty_env ''localhost'' (ifinfmsg 0) two_handles))
       = [(Callable 7, ''localhost'', ifinfmsg 0), (Partial 5 3 ''load_rtnlmsg'', ''localhost'', ifinfmsg 0),
          (Partial 6 4 ''load_rtnlmsg'', ''localhost'', ifinfmsg 0), (Callable 1, ''localhost'', ifinfmsg 0),
          (Callable 7, ''localhost'', ifinfmsg 0)]"
proof -
  let ?hs = "[Callable 7, Partial 5 3 ''load_rtnlmsg'', Partial 6 4 ''load_rtnlmsg'', Callable 1, Callable 7]"
  let ?e = "ifinfmsg 0"
  have a: "\<not> alive two_handles 3" "alive two_handles 4"
    "ndb_event_map two_handles (class_of ?e) = Some ?hs" "calls two_handles = []"
    "class_of ?e = MsgClass ''ifinfmsg''"
    by (simp_all add: two_handles_def started_ndb_def ifinfmsg_def)
  have m: "Partial 5 3 ''load_rtnlmsg'' \<in> set ?hs" by simp
  have o: "\<forall>(g, sg)\<in>set (pass_states faulty_env ''localhost'' ?e ?hs ?hs
                (two_handles\<lparr>dispatched := dispatched two_handles @ [(''localhost'', ?e)]\<rparr>)).
            g \<noteq> Partial 5 3 ''load_rtnlmsg'' \<longrightarrow>
              fst (call_handler faulty_env g ''localhost'' ?e sg) \<noteq> Raised InvalidateHandlerException
              \<and> fst (call_handler faulty_env g ''localhost'' ?e sg) \<noteq> Raised ShutdownException"
    by (simp add: two_handles_def started_ndb_def faulty_env_def wr_handler_def)
  from weak_handler_invalidation[of faulty_env 3 "''load_rtnlmsg''" "''localhost''" ?e two_handles ?hs 5]
    a m o
  have "fst (dispatch_event faulty_env ''localhost'' ?e two_handles) = False
      \<and> ndb_event_map (snd (dispatch_event faulty_env ''localhost'' ?e two_handles)) (MsgClass ''ifinfmsg'')
          = Some [Callable 7, Partial 6 4 ''load_rtnlmsg'', Callable 1, Callable 7]
      \<and> calls (snd (dispatch_event faulty_env ''localhost'' ?e two_handles))
          = map (\<lambda>g. (g, ''localhost'', ?e)) ?hs"
    by simp
  with a show ?thesis by simp
qed



lemma gc_check_constructed:
  "ndb_rtnl_objects s \<noteq> None \<Longrightarrow> \<exists>s'. gc_check E s = Some s'"
  by (auto simp: gc_check_def Let_def)

text \<open>
  C4. Two handlers are registered for the class of an event; the first raises an
  exception that is neither control exception, the second ends in any way but a control
  exception, and the engine is constructed. Then the pass calls the first and then the
  second handler, logs the exception of the first, leaves both handlers registered and
  does not stop the loop: the collection check succeeds, and the loop goes on with the
  rest of the batch and of the queue.
\<close>

theorem handler_fault_isolated:
  assumes reg: "ndb_event_map s (class_of e) = Some [h1, h2]"
    and h1: "call_handler E h1 t e (s\<lparr>dispatched := dispatched s @ [(t, e)], calls := calls s @ [(h1, t, e)]\<rparr>)
               = (Raised (OtherException n), s1)"
    and h2: "call_handler E h2 t e
               (s1\<lparr>logged := logged s1 @ [CouldNotLoad e (OtherException n)], calls := calls s1 @ [(h2, t, e)]\<rparr>)
               = (out, s2)"
    and out: "out \<noteq> Raised ShutdownException" "out \<noteq> Raised InvalidateHandlerException"
    and constructed: "ndb_rtnl_objects s \<noteq> None"
  shows "fst (dispatch_event E t e s) = False
     \<and> calls (snd (dispatch_event E t e s)) = calls s @ [(h1, t, e), (h2, t, e)]
     \<and> CouldNotLoad e (OtherException n) \<in> set (logged (snd (dispatch_event E t e s)))
     \<and> ndb_event_map (snd (dispatch_event E t e s)) (class_of e) = Some [h1, h2]
     \<and> gc_check E (snd (dispatch_event E t e s)) \<noteq> None
     \<and> events_loop E t (e # es) s
         = events_loop E t es (the (gc_check E (snd (dispatch_event E t e s))))
     \<and> dbm_loop E ((t, e # es) # q) s
         = dbm_loop E ((t, es) # q) (the (gc_check E (snd (dispatch_event E t e s))))"
proof -
  let ?sA = "s\<lparr>dispatched := dispatched s @ [(t, e)], calls := calls s @ [(h1, t, e)]\<rparr>"
  let ?sB = "s1\<lparr>logged := logged s1 @ [CouldNotLoad e (OtherException n)], calls := calls s1 @ [(h2, t, e)]\<rparr>"
  note f1 = call_handler_frame[OF h1]
  note f2 = call_handler_frame[OF h2]
  have lg: "CouldNotLoad e (OtherException n) \<in> set (logged s2)"
  proof (cases h2)
    case SetReady
    with h2 show ?thesis by (auto split: event.splits)
  next
    case DefaultHandler
    with h2 show ?thesis by (auto simp: default_handler_def split: event.splits)
  next
    case (Partial p wr f)
    with h2 wr_handler_frame[of E wr f t e ?sB out s2] show ?thesis by simp
  next
    case (Callable c)
    with h2 show ?thesis by (auto split: prod.splits)
  qed
  define s3 where "s3 = (case out of Returned \<Rightarrow> s2
                          | Raised c \<Rightarrow> s2\<lparr>logged := logged s2 @ [CouldNotLoad e c]\<rparr>)"
  have fh: "for_handlers E t e [h1, h2] [h1, h2] (s\<lparr>dispatched := dispatched s @ [(t, e)]\<rparr>)
              = (False, [h1, h2], s3)"
  proof (cases out)
    case Returned
    then show ?thesis using h1 h2 by (simp add: s3_def)
  next
    case (Raised c)
    with out obtain m where "c = OtherException m" by (cases c) auto
    with Raised show ?thesis using h1 h2 by (simp add: s3_def)
  qed
  let ?s' = "s3\<lparr>ndb_event_map := (ndb_event_map s3)(class_of e \<mapsto> [h1, h2])\<rparr>"
  have d: "dispatch_event E t e s = (False, ?s')"
    using reg fh by (simp add: dispatch_event_def Let_def)
  have c3: "calls s3 = calls s @ [(h1, t, e), (h2, t, e)]"
    using f1 f2 by (simp add: s3_def split: outcome.splits)
  have l3: "CouldNotLoad e (OtherException n) \<in> set (logged s3)"
    using lg by (simp add: s3_def split: outcome.splits)
  have r3: "ndb_rtnl_objects ?s' \<noteq> None"
    using f1 f2 constructed by (simp add: s3_def split: outcome.splits)
  from gc_check_constructed[OF r3] obtain s'' where g: "gc_check E ?s' = Some s''" by blast
  have ev: "events_loop E t (e # es) s = events_loop E t es s''"
    using d g by simp
  have "dbm_loop E ((t, e # es) # q) s = dbm_loop E ((t, es) # q) s''"
    using ev by simp
  with d c3 l3 g ev show ?thesis by simp
qed

theorem handler_fault_isolated_witness:
  "ndb_event_map (started_ndb\<lparr>ndb_event_map := [MsgClass ''ifinfmsg'' \<mapsto> [Callable 1, Callable 2]]\<rparr>)
      (class_of (ifinfmsg 0)) = Some [Callable 1, Callable 2]
   \<and> fst (dispatch_event faulty_env ''localhost'' (ifinfmsg 0)
        (started_ndb\<lparr>ndb_event_map := [MsgClass ''ifinfmsg'' \<mapsto> [Callable 1, Callable 2]]\<rparr>)) = False
   \<and> calls (snd (dispatch_event faulty_env ''localhost'' (ifinfmsg 0)
        (started_ndb\<lparr>ndb_event_map := [MsgClass ''ifinfmsg'' \<mapsto> [Callable 1, Callable 2]]\<rparr>)))
       = [(Callable 1, ''localhost'', ifinfmsg 0), (Callable 2, ''localhost'', ifinfmsg 0)]
   \<and> ndb_event_map (snd (dispatch_event faulty_env ''localhost'' (ifinfmsg 0)
        (started_ndb\<lparr>ndb_event_map := [MsgClass ''ifinfmsg'' \<mapsto> [Callable 1, Callable 2]]\<rparr>)))
        (MsgClass ''ifinfmsg'') = Some [Callable 1, Callable 2]
   \<and> dbm_loop faulty_env [(''localhost'', [ifinfmsg 0, ifinfmsg 1])]
        (started_ndb\<lparr>ndb_event_map := [MsgClass ''ifinfmsg'' \<mapsto> [Callable 1, Callable 2]]\<rparr>)
       = dbm_loop faulty_env [(''localhost'', [ifinfmsg 1])]
          (the (gc_check faulty_env (snd (dispatch_event faulty_env ''localhost'' (ifinfmsg 0)
            (started_ndb\<lparr>ndb_event_map := [MsgClass ''ifinfmsg'' \<mapsto> [Callable 1, Callable 2]]\<rparr>)))))"
proof -
  let ?s = "started_ndb\<lparr>ndb_event_map := [MsgClass ''ifinfmsg'' \<mapsto> [Callable 1, Callable 2]]\<rparr>"
  let ?e = "ifinfmsg 0"
  let ?t = "''localhost''"
  let ?sA = "?s\<lparr>dispatched := dispatched ?s @ [(?t, ?e)], calls := calls ?s @ [(Callable 1, ?t, ?e)]\<rparr>"
  let ?sB = "?sA\<lparr>logged := logged ?sA @ [CouldNotLoad ?e (OtherException ''ValueError'')],
                  calls := calls ?sA @ [(Callable 2, ?t, ?e)]\<rparr>"
  have reg: "ndb_event_map ?s (class_of ?e) = Some [Callable 1, Callable 2]"
    by (simp add: ifinfmsg_def)
  have h1: "call_handler faulty_env (Callable 1) ?t ?e ?sA = (Raised (OtherException ''ValueError''), ?sA)"
    by (simp add: faulty_env_def)
  have h2: "call_handler faulty_env (Callable 2) ?t ?e ?sB = (Returned, ?sB)"
    by (simp add: faulty_env_def)
  have c: "ndb_rtnl_objects ?s \<noteq> None" by (simp add: started_ndb_def)
  have k: "class_of ?e = MsgClass ''ifinfmsg''" "calls ?s = []"
    by (simp_all add: ifinfmsg_def started_ndb_def)
  from handler_fault_isolated[OF reg h1 h2 _ _ c, of "[ifinfmsg 1]" "[]"] reg k
  show ?thesis by simp
qed

text \<open>
  C5 as the program has it. For an event whose class has no registered handler the
  default handler is called once; it raises the event when the event is an instance of
  \<^verbatim>\<open>Exception\<close>. The raise is handled like the raise of any handler:
  \<^verbatim>\<open>ShutdownException\<close> makes the loop return; \<^verbatim>\<open>InvalidateHandlerException\<close> is
  absorbed; any other exception is logged. An event that is no exception is logged as
  unsupported. In every case the store and the event map stay as they are. Unless the
  loop has returned, the collection check follows: on an engine whose constructor has
  assigned \<^verbatim>\<open>self._rtnl_objects\<close> it succeeds, and the loop goes on with the next event
  of the batch and with the rest of the queue; when it fails, the loop ends with its
  exception.
\<close>

theorem unregistered_event_default:
  assumes "ndb_event_map s (class_of e) = None"
  shows "dispatch_event E t e s =
     (case e of
        ExcEvent ShutdownException \<Rightarrow>
          (True, s\<lparr>dispatched := dispatched s @ [(t, e)], calls := calls s @ [(DefaultHandler, t, e)]\<rparr>)
      | ExcEvent InvalidateHandlerException \<Rightarrow>
          (False, s\<lparr>dispatched := dispatched s @ [(t, e)], calls := calls s @ [(DefaultHandler, t, e)]\<rparr>)
      | ExcEvent (OtherException n) \<Rightarrow>
          (False, s\<lparr>dispatched := dispatched s @ [(t, e)], calls := calls s @ [(DefaultHandler, t, e)],
                    logged := logged s @ [CouldNotLoad e (OtherException n)]\<rparr>)
      | _ \<Rightarrow>
          (False, s\<lparr>dispatched := dispatched s @ [(t, e)], calls := calls s @ [(DefaultHandler, t, e)],
                    logged := logged s @ [UnsupportedEvent (class_of e)]\<rparr>))
     \<and> default_handler t (ExcEvent c) s = (Raised c, s)
     \<and> store (snd (dispatch_event E t e s)) = store s
     \<and> ndb_event_map (snd (dispatch_event E t e s)) = ndb_event_map s
     \<and> (e = ExcEvent ShutdownException \<longrightarrow>
          events_loop E t (e # es) s = (Return, snd (dispatch_event E t e s))
          \<and> dbm_loop E ((t, e # es) # q) s = (Return, snd (dispatch_event E t e s)))
     \<and> (e \<noteq> ExcEvent ShutdownException \<and> ndb_rtnl_objects s \<noteq> None \<longrightarrow>
          gc_check E (snd (dispatch_event E t e s)) \<noteq> None
          \<and> events_loop E t (e # es) s
              = events_loop E t es (the (gc_check E (snd (dispatch_event E t e s))))
          \<and> dbm_loop E ((t, e # es) # q) s
              = dbm_loop E ((t, es) # q) (the (gc_check E (snd (dispatch_event E t e s)))))
     \<and> (e \<noteq> ExcEvent ShutdownException \<and> gc_check E (snd (dispatch_event E t e s)) = None \<longrightarrow>
          events_loop E t (e # es) s = (Crash, snd (dispatch_event E t e s))
          \<and> dbm_loop E ((t, e # es) # q) s = (Crash, snd (dispatch_event E t e s)))"
proof -
  have d: "dispatch_event E t e s =
     (case e of
        ExcEvent ShutdownException \<Rightarrow>
          (True, s\<lparr>dispatched := dispatched s @ [(t, e)], calls := calls s @ [(DefaultHandler, t, e)]\<rparr>)
      | ExcEvent InvalidateHandlerException \<Rightarrow>
          (False, s\<lparr>dispatched := dispatched s @ [(t, e)], calls := calls s @ [(DefaultHandler, t, e)]\<rparr>)
      | ExcEvent (OtherException n) \<Rightarrow>
          (False, s\<lparr>dispatched := dispatched s @ [(t, e)], calls := calls s @ [(DefaultHandler, t, e)],
                    logged := logged s @ [CouldNotLoad e (OtherException n)]\<rparr>)
      | _ \<Rightarrow>
          (False, s\<lparr>dispatched := dispatched s @ [(t, e)], calls := calls s @ [(DefaultHandler, t, e)],
                    logged := logged s @ [UnsupportedEvent (class_of e)]\<rparr>))"
    using assms
    by (cases e) (auto simp: dispatch_event_def Let_def default_handler_def split: excclass.splits)
  have stop: "fst (dispatch_event E t e s) = (e = ExcEvent ShutdownException)"
    unfolding d by (cases e) (auto split: excclass.splits)
  have ro: "ndb_rtnl_objects (snd (dispatch_event E t e s)) = ndb_rtnl_objects s"
    unfolding d by (cases e) (auto split: excclass.splits)
  have st: "store (snd (dispatch_event E t e s)) = store s"
    unfolding d by (cases e) (auto split: excclass.splits)
  have em: "ndb_event_map (snd (dispatch_event E t e s)) = ndb_event_map s"
    unfolding d by (cases e) (auto split: excclass.splits)
  obtain b s1 where p: "dispatch_event E t e s = (b, s1)" by (cases "dispatch_event E t e s")
  with stop have b: "b = (e = ExcEvent ShutdownException)" by simp
  have l1: "e = ExcEvent ShutdownException \<longrightarrow>
          events_loop E t (e # es) s = (Return, snd (dispatch_event E t e s))
          \<and> dbm_loop E ((t, e # es) # q) s = (Return, snd (dispatch_event E t e s))"
  proof (intro impI)
    assume "e = ExcEvent ShutdownException"
    with p b have p1: "dispatch_event E t e s = (True, s1)" by simp
    then have ev: "events_loop E t (e # es) s = (Return, s1)" by simp
    then have "dbm_loop E ((t, e # es) # q) s = (Return, s1)" by simp
    with ev p1 show "events_loop E t (e # es) s = (Return, snd (dispatch_event E t e s))
          \<and> dbm_loop E ((t, e # es) # q) s = (Return, snd (dispatch_event E t e s))" by simp
  qed
  have l2: "e \<noteq> ExcEvent ShutdownException \<and> ndb_rtnl_objects s \<noteq> None \<longrightarrow>
          gc_check E (snd (dispatch_event E t e s)) \<noteq> None
          \<and> events_loop E t (e # es) s
              = events_loop E t es (the (gc_check E (snd (dispatch_event E t e s))))
          \<and> dbm_loop E ((t, e # es) # q) s
              = dbm_loop E ((t, es) # q) (the (gc_check E (snd (dispatch_event E t e s))))"
  proof (intro impI)
    assume a: "e \<noteq> ExcEvent ShutdownException \<and> ndb_rtnl_objects s \<noteq> None"
    with ro p have "ndb_rtnl_objects s1 \<noteq> None" by simp
    from gc_check_constructed[OF this] obtain s2 where g: "gc_check E s1 = Some s2" by blast
    from p b a have p1: "dispatch_event E t e s = (False, s1)" by simp
    have ev: "events_loop E t (e # es) s = events_loop E t es s2" using p1 g by simp
    then have "dbm_loop E ((t, e # es) # q) s = dbm_loop E ((t, es) # q) s2" by simp
    with ev g p1 show "gc_check E (snd (dispatch_event E t e s)) \<noteq> None
          \<and> events_loop E t (e # es) s
              = events_loop E t es (the (gc_check E (snd (dispatch_event E t e s))))
          \<and> dbm_loop E ((t, e # es) # q) s
              = dbm_loop E ((t, es) # q) (the (gc_check E (snd (dispatch_event E t e s))))" by simp
  qed
  have l3: "e \<noteq> ExcEvent ShutdownException \<and> gc_check E (snd (dispatch_event E t e s)) = None \<longrightarrow>
          events_loop E t (e # es) s = (Crash, snd (dispatch_event E t e s))
          \<and> dbm_loop E ((t, e # es) # q) s = (Crash, snd (dispatch_event E t e s))"
  proof (intro impI)
    assume a: "e \<noteq> ExcEvent ShutdownException \<and> gc_check E (snd (dispatch_event E t e s)) = None"
    from p b a have p1: "dispatch_event E t e s = (False, s1)" by simp
    with a have g: "gc_check E s1 = None" by simp
    have ev: "events_loop E t (e # es) s = (Crash, s1)" using p1 g by simp
    then have "dbm_loop E ((t, e # es) # q) s = (Crash, s1)" by simp
    with ev p1 show "events_loop E t (e # es) s = (Crash, snd (dispatch_event E t e s))
          \<and> dbm_loop E ((t, e # es) # q) s = (Crash, snd (dispatch_event E t e s))" by simp
  qed
  have dh: "default_handler t (ExcEvent c) s = (Raised c, s)" by (simp add: default_handler_def)
  from d dh st em l1 l2 l3 show ?thesis by (intro conjI) assumption+
qed

theorem unregistered_event_default_witness:
  "ndb_event_map started_ndb (class_of (ExcEvent ShutdownException)) = None
   \<and> ndb_event_map started_ndb (class_of (ExcEvent (OtherException ''ValueError''))) = None
   \<and> ndb_rtnl_objects started_ndb \<noteq> None
   \<and> dbm_loop quiet_env [(''localhost'', [ExcEvent ShutdownException, ifinfmsg 1])] started_ndb
      = (Return, started_ndb\<lparr>dispatched := [(''localhost'', ExcEvent ShutdownException)],
                             calls := [(DefaultHandler, ''localhost'', ExcEvent ShutdownException)]\<rparr>)
   \<and> gc_check quiet_env (snd (dispatch_event quiet_env ''localhost'' (ExcEvent (OtherException ''ValueError''))
         started_ndb)) \<noteq> None
   \<and> dbm_loop quiet_env [(''localhost'', [ExcEvent (OtherException ''ValueError''), ifinfmsg 1])] started_ndb
      = dbm_loop quiet_env [(''localhost'', [ifinfmsg 1])]
          (the (gc_check quiet_env (snd (dispatch_event quiet_env ''localhost''
                  (ExcEvent (OtherException ''ValueError'')) started_ndb))))
   \<and> dispatch_event quiet_env ''localhost'' (ExcEvent (OtherException ''ValueError'')) started_ndb
      = (False, started_ndb\<lparr>dispatched := [(''localhost'', ExcEvent (OtherException ''ValueError''))],
           calls := [(DefaultHandler, ''localhost'', ExcEvent (OtherException ''ValueError''))],
           logged := [CouldNotLoad (ExcEvent (OtherException ''ValueError'')) (OtherException ''ValueError'')]\<rparr>)"
proof -
  let ?sd = "ExcEvent ShutdownException"
  let ?ve = "ExcEvent (OtherException ''ValueError'')"
  have h: "ndb_event_map started_ndb (class_of ?sd) = None"
    by (simp add: started_ndb_def)
  have h2: "ndb_event_map started_ndb (class_of ?ve) = None"
    by (simp add: started_ndb_def)
  have c: "ndb_rtnl_objects started_ndb \<noteq> None" by (simp add: started_ndb_def)
  have z: "dispatched started_ndb = []" "calls started_ndb = []" "logged started_ndb = []"
    by (simp_all add: started_ndb_def)
  note A = unregistered_event_default[OF h, where E = quiet_env and t = "''localhost''"
      and es = "[ifinfmsg 1]" and q = "[]" and c = ShutdownException]
  note B = unregistered_event_default[OF h2, where E = quiet_env and t = "''localhost''"
      and es = "[ifinfmsg 1]" and q = "[]" and c = ShutdownException]
  from A have a1: "dispatch_event quiet_env ''localhost'' ?sd started_ndb
      = (True, started_ndb\<lparr>dispatched := [(''localhost'', ?sd)], calls := [(DefaultHandler, ''localhost'', ?sd)]\<rparr>)"
    by (simp add: z del: events_loop.simps dbm_loop.simps)
  from A have a2: "dbm_loop quiet_env [(''localhost'', [?sd, ifinfmsg 1])] started_ndb
      = (Return, snd (dispatch_event quiet_env ''localhost'' ?sd started_ndb))"
    by blast
  from B have b1: "dispatch_event quiet_env ''localhost'' ?ve started_ndb
      = (False, started_ndb\<lparr>dispatched := [(''localhost'', ?ve)], calls := [(DefaultHandler, ''localhost'', ?ve)],
           logged := [CouldNotLoad ?ve (OtherException ''ValueError'')]\<rparr>)"
    by (simp add: z del: events_loop.simps dbm_loop.simps)
  from B c have b2: "gc_check quiet_env (snd (dispatch_event quiet_env ''localhost'' ?ve started_ndb)) \<noteq> None
     \<and> dbm_loop quiet_env [(''localhost'', [?ve, ifinfmsg 1])] started_ndb
      = dbm_loop quiet_env [(''localhost'', [ifinfmsg 1])]
          (the (gc_check quiet_env (snd (dispatch_event quiet_env ''localhost'' ?ve started_ndb))))"
    by blast
  have a3: "dbm_loop quiet_env [(''localhost'', [?sd, ifinfmsg 1])] started_ndb
      = (Return, started_ndb\<lparr>dispatched := [(''localhost'', ?sd)], calls := [(DefaultHandler, ''localhost'', ?sd)]\<rparr>)"
    unfolding a2 a1 by simp
  from h h2 c a3 b2 b1 show ?thesis by (intro conjI) (elim conjE, assumption)+
qed


text \<open>
  An instance of another exception class, of a class without handler, is raised by the
  default handler and does not end the loop: the next event of the batch is dispatched,
  and the loop ends blocked on the empty queue.
\<close>

theorem unregistered_exception_not_fatal:
  "ndb_event_map started_ndb (class_of (ExcEvent (OtherException ''ValueError''))) = None
   \<and> default_handler ''localhost'' (ExcEvent (OtherException ''ValueError'')) started_ndb
       = (Raised (OtherException ''ValueError''), started_ndb)
   \<and> fst (dbm_loop quiet_env
            [(''localhost'', [ExcEvent (OtherException ''ValueError''), ifinfmsg 1])] started_ndb) = Continue
   \<and> dispatched (snd (dbm_loop quiet_env
            [(''localhost'', [ExcEvent (OtherException ''ValueError''), ifinfmsg 1])] started_ndb))
       = [(''localhost'', ExcEvent (OtherException ''ValueError'')), (''localhost'', ifinfmsg 1)]
   \<and> logged (snd (dbm_loop quiet_env
            [(''localhost'', [ExcEvent (OtherException ''ValueError''), ifinfmsg 1])] started_ndb))
       = [CouldNotLoad (ExcEvent (OtherException ''ValueError'')) (OtherException ''ValueError''),
          UnsupportedEvent (MsgClass ''ifinfmsg'')]"
  by (simp add: dispatch_event_def gc_check_def Let_def quiet_env_def started_ndb_def ifinfmsg_def
      default_handler_def)


section \<open>\<^verbatim>\<open>View.__getitem__\<close>: a new Handle on every call\<close>

lemma handlers_of_register:
  "handlers_of (register_handler ev h s) ev' = (if ev' = ev then handlers_of s ev @ [h] else handlers_of s ev')"
  by (auto simp: handlers_of_def register_handler_def Let_def split: option.splits)

lemma register_handler_frame:
  "next_id (register_handler ev h s) = next_id s \<and> alive (register_handler ev h s) = alive s
   \<and> ndb_rtnl_objects (register_handler ev h s) = ndb_rtnl_objects s"
  by (simp add: register_handler_def Let_def)

lemma register_all_frame:
  "next_id (register_all wr items s) = next_id s + length items
   \<and> alive (register_all wr items s) = alive s
   \<and> ndb_rtnl_objects (register_all wr items s) = ndb_rtnl_objects s"
  by (induction wr items s rule: register_all.induct) (simp_all add: register_handler_frame)

lemma register_all_length:
  "length (handlers_of (register_all wr items s) ev)
     = length (handlers_of s ev) + length (filter (\<lambda>x. fst x = ev) items)"
proof (induction wr items s rule: register_all.induct)
  case (1 wr s)
  show ?case by simp
next
  case (2 wr ev' fname items s)
  have "handlers_of (s\<lparr>next_id := next_id s + 1\<rparr>) ev = handlers_of s ev"
    by (simp add: handlers_of_def)
  with 2 show ?case by (simp add: handlers_of_register)
qed

lemma register_all_mono:
  "set (handlers_of s ev) \<subseteq> set (handlers_of (register_all wr items s) ev)"
proof (induction wr items s rule: register_all.induct)
  case (1 wr s)
  show ?case by simp
next
  case (2 wr ev' fname items s)
  have "handlers_of (s\<lparr>next_id := next_id s + 1\<rparr>) ev = handlers_of s ev"
    by (simp add: handlers_of_def)
  with 2 show ?case by (auto simp: handlers_of_register split: if_splits)
qed

lemma register_all_new:
  "(ev, f) \<in> set items \<Longrightarrow>
     \<exists>p. next_id s \<le> p \<and> p < next_id s + length items
        \<and> Partial p wr f \<in> set (handlers_of (register_all wr items s) ev)"
proof (induction wr items s rule: register_all.induct)
  case (1 wr s)
  then show ?case by simp
next
  case (2 wr ev' fname items s)
  let ?s1 = "register_handler ev' (Partial (next_id s) wr fname) (s\<lparr>next_id := next_id s + 1\<rparr>)"
  have n1: "next_id ?s1 = next_id s + 1" by (simp add: register_handler_frame)
  show ?case
  proof (cases "(ev, f) = (ev', fname)")
    case True
    have "Partial (next_id s) wr f \<in> set (handlers_of ?s1 ev)"
      using True by (simp add: handlers_of_register)
    then have "Partial (next_id s) wr f \<in> set (handlers_of (register_all wr items ?s1) ev)"
      using register_all_mono[of ?s1 ev wr items] by blast
    then show ?thesis by (intro exI[of _ "next_id s"]) simp
  next
    case False
    with 2(2) have "(ev, f) \<in> set items" by auto
    from 2(1)[OF this] obtain p where "next_id ?s1 \<le> p" "p < next_id ?s1 + length items"
      "Partial p wr f \<in> set (handlers_of (register_all wr items ?s1) ev)" by blast
    then show ?thesis using n1 by (intro exI[of _ p]) simp
  qed
qed

lemma getitem_Inr:
  assumes "getitem E C k s = Inr (h, s')"
  shows "h = next_id s"
    and "\<exists>objs. ndb_rtnl_objects s = Some objs \<and>
          s' = register_all h (event_map C)
                 (s\<lparr>next_id := h + 1, alive := (alive s)(h := True),
                     ndb_rtnl_objects := Some (List.insert h objs)\<rparr>)"
  using assms by (auto simp: getitem_def Let_def split: option.splits)

lemma handlers_of_upd [simp]:
  "handlers_of (s\<lparr>next_id := n, alive := a, ndb_rtnl_objects := r\<rparr>) ev = handlers_of s ev"
  by (simp add: handlers_of_def)

text \<open>
  C7. Two calls of \<^verbatim>\<open>View.__getitem__\<close> with the same key, one after the other, return
  two different objects, both alive afterwards. Each call adds one handler per entry of
  the entity class's event map to the list of that entry's event class (so the lists grow
  by two per entry), and for every entry the list holds two different partial objects
  afterwards, one bound to the first Handle and one bound to the second: nothing is
  looked up in a cache.
\<close>

theorem getitem_new_handle:
  assumes g1: "getitem E C k s = Inr (h1, s1)" and g2: "getitem E C k s1 = Inr (h2, s2)"
  shows "h1 \<noteq> h2 \<and> alive s2 h1 \<and> alive s2 h2
     \<and> length (handlers_of s2 ev) = length (handlers_of s ev) + 2 * length (filter (\<lambda>x. fst x = ev) (event_map C))
     \<and> ((ev, f) \<in> set (event_map C) \<longrightarrow>
          (\<exists>p1 p2. p1 \<noteq> p2 \<and> Partial p1 h1 f \<in> set (handlers_of s2 ev)
                  \<and> Partial p2 h2 f \<in> set (handlers_of s2 ev)))"
proof -
  from getitem_Inr[OF g1] obtain o1 where
    a1: "h1 = next_id s" and r1: "ndb_rtnl_objects s = Some o1" and
    b1: "s1 = register_all h1 (event_map C)
                 (s\<lparr>next_id := h1 + 1, alive := (alive s)(h1 := True),
                     ndb_rtnl_objects := Some (List.insert h1 o1)\<rparr>)" by blast
  from getitem_Inr[OF g2] obtain o2 where
    a2: "h2 = next_id s1" and r2: "ndb_rtnl_objects s1 = Some o2" and
    b2: "s2 = register_all h2 (event_map C)
                 (s1\<lparr>next_id := h2 + 1, alive := (alive s1)(h2 := True),
                     ndb_rtnl_objects := Some (List.insert h2 o2)\<rparr>)" by blast
  let ?n = "length (event_map C)"
  have n1: "next_id s1 = h1 + 1 + ?n" by (simp add: b1 register_all_frame)
  have ne: "h1 \<noteq> h2" using a2 n1 by simp
  have al1: "alive s1 h1" by (simp add: b1 register_all_frame)
  have al2: "alive s2 h1 \<and> alive s2 h2" using al1 by (simp add: b2 register_all_frame)
  have l1: "length (handlers_of s1 ev) = length (handlers_of s ev) + length (filter (\<lambda>x. fst x = ev) (event_map C))"
    by (simp add: b1 register_all_length)
  have l2: "length (handlers_of s2 ev) = length (handlers_of s1 ev) + length (filter (\<lambda>x. fst x = ev) (event_map C))"
    by (simp add: b2 register_all_length)
  have reg: "\<exists>p1 p2. p1 \<noteq> p2 \<and> Partial p1 h1 f \<in> set (handlers_of s2 ev)
                  \<and> Partial p2 h2 f \<in> set (handlers_of s2 ev)" if m: "(ev, f) \<in> set (event_map C)"
  proof -
    let ?u1 = "s\<lparr>next_id := h1 + 1, alive := (alive s)(h1 := True),
                     ndb_rtnl_objects := Some (List.insert h1 o1)\<rparr>"
    let ?u2 = "s1\<lparr>next_id := h2 + 1, alive := (alive s1)(h2 := True),
                     ndb_rtnl_objects := Some (List.insert h2 o2)\<rparr>"
    from register_all_new[OF m, of ?u1 h1] obtain p1 where
      p1: "p1 < h1 + 1 + ?n" "Partial p1 h1 f \<in> set (handlers_of s1 ev)" by (auto simp: b1)
    from register_all_new[OF m, of ?u2 h2] obtain p2 where
      p2: "h2 + 1 \<le> p2" "Partial p2 h2 f \<in> set (handlers_of s2 ev)" by (auto simp: b2)
    have "set (handlers_of s1 ev) \<subseteq> set (handlers_of s2 ev)"
      using register_all_mono[of ?u2 ev h2 "event_map C"] by (simp add: b2)
    with p1 have "Partial p1 h1 f \<in> set (handlers_of s2 ev)" by blast
    moreover have "p1 \<noteq> p2" using p1 p2 a2 n1 by simp
    ultimately show ?thesis using p2 by blast
  qed
  from ne al2 l1 l2 reg show ?thesis by simp
qed

theorem getitem_new_handle_witness:
  "getitem quiet_env Interface (KeyStr ''eth0'') started_ndb
     = Inr (0, started_ndb\<lparr>ndb_event_map := [ThreadingEvent \<mapsto> [SetReady],
                 MsgClass ''ifinfmsg'' \<mapsto> [Partial 1 0 ''load_rtnlmsg'']],
              ndb_rtnl_objects := Some [0], alive := (\<lambda>a. False)(0 := True), next_id := 2\<rparr>)
   \<and> getitem quiet_env Interface (KeyStr ''eth0'')
       (started_ndb\<lparr>ndb_event_map := [ThreadingEvent \<mapsto> [SetReady],
                 MsgClass ''ifinfmsg'' \<mapsto> [Partial 1 0 ''load_rtnlmsg'']],
              ndb_rtnl_objects := Some [0], alive := (\<lambda>a. False)(0 := True), next_id := 2\<rparr>)
     = Inr (2, started_ndb\<lparr>ndb_event_map := [ThreadingEvent \<mapsto> [SetReady],
                 MsgClass ''ifinfmsg'' \<mapsto> [Partial 1 0 ''load_rtnlmsg'', Partial 3 2 ''load_rtnlmsg'']],
              ndb_rtnl_objects := Some [2, 0], alive := (\<lambda>a. False)(0 := True, 2 := True), next_id := 4\<rparr>)
   \<and> (0::nat) \<noteq> 2
   \<and> length (handlers_of (started_ndb\<lparr>ndb_event_map := [ThreadingEvent \<mapsto> [SetReady],
                 MsgClass ''ifinfmsg'' \<mapsto> [Partial 1 0 ''load_rtnlmsg'', Partial 3 2 ''load_rtnlmsg'']],
              ndb_rtnl_objects := Some [2, 0], alive := (\<lambda>a. False)(0 := True, 2 := True), next_id := 4\<rparr>)
          (MsgClass ''ifinfmsg'')) = 2"
proof -
  let ?s1 = "started_ndb\<lparr>ndb_event_map := [ThreadingEvent \<mapsto> [SetReady],
                 MsgClass ''ifinfmsg'' \<mapsto> [Partial 1 0 ''load_rtnlmsg'']],
              ndb_rtnl_objects := Some [0], alive := (\<lambda>a. False)(0 := True), next_id := 2\<rparr>"
  let ?s2 = "started_ndb\<lparr>ndb_event_map := [ThreadingEvent \<mapsto> [SetReady],
                 MsgClass ''ifinfmsg'' \<mapsto> [Partial 1 0 ''load_rtnlmsg'', Partial 3 2 ''load_rtnlmsg'']],
              ndb_rtnl_objects := Some [2, 0], alive := (\<lambda>a. False)(0 := True, 2 := True), next_id := 4\<rparr>"
  have g1: "getitem quiet_env Interface (KeyStr ''eth0'') started_ndb = Inr (0, ?s1)"
    by (simp add: getitem_def quiet_env_def Interface_def started_ndb_def Let_def register_handler_def
        fun_upd_twist)
  have g2: "getitem quiet_env Interface (KeyStr ''eth0'') ?s1 = Inr (2, ?s2)"
    by (simp add: getitem_def quiet_env_def Interface_def started_ndb_def Let_def register_handler_def
        fun_upd_twist)
  have z: "handlers_of started_ndb (MsgClass ''ifinfmsg'') = []"
    "filter (\<lambda>x. fst x = MsgClass ''ifinfmsg'') (event_map Interface) = [(MsgClass ''ifinfmsg'', ''load_rtnlmsg'')]"
    by (simp_all add: handlers_of_def started_ndb_def Interface_def)
  from getitem_new_handle[OF g1 g2, of "MsgClass ''ifinfmsg''" "''load_rtnlmsg''"] g1 g2 z
  show ?thesis by simp
qed


section \<open>\<^verbatim>\<open>NDB.close\<close> called again\<close>

lemma do_op_frame:
  "do_op X c s = (r, s') \<Longrightarrow> ndb_schema s' = ndb_schema s \<and> ndb_src_threads s' = ndb_src_threads s
     \<and> event_queue s' = event_queue s \<and> atexit_registered s' = atexit_registered s
     \<and> ops s' = ops s @ [c]"
  by (auto simp: do_op_def)

lemma close_sources_frame:
  "close_sources X srcs s = (r, s') \<Longrightarrow> ndb_schema s' = ndb_schema s \<and> ndb_src_threads s' = ndb_src_threads s
     \<and> event_queue s' = event_queue s \<and> atexit_registered s' = atexit_registered s
     \<and> prefix (ops s) (ops s')
     \<and> (srcs \<noteq> [] \<longrightarrow> prefix (ops s @ [ChannelClose (hd srcs)]) (ops s'))"
proof (induction srcs arbitrary: s)
  case Nil
  then show ?case by simp
next
  case (Cons src srcs)
  obtain r1 s1 where d1: "do_op X (ChannelClose src) s = (r1, s1)" by (cases "do_op X (ChannelClose src) s")
  note f1 = do_op_frame[OF d1]
  show ?case
  proof (cases r1)
    case (Some e)
    with Cons.prems d1 f1 show ?thesis by auto
  next
    case None
    obtain r2 s2 where d2: "do_op X (ThreadJoin src) s1 = (r2, s2)" by (cases "do_op X (ThreadJoin src) s1")
    note f2 = do_op_frame[OF d2]
    show ?thesis
    proof (cases r2)
      case (Some e)
      with Cons.prems d1 d2 f1 f2 None show ?thesis by auto
    next
      case n2: None
      with Cons.prems d1 d2 None have c: "close_sources X srcs s2 = (r, s')" by simp
      from Cons.IH[OF c] f1 f2 show ?thesis
        by (auto simp: prefix_def)
    qed
  qed
qed

lemma close_sources_ok:
  "\<forall>h c. X h c = None \<Longrightarrow>
     close_sources X srcs s = (None, s\<lparr>ops := ops s @ concat (map (\<lambda>t. [ChannelClose t, ThreadJoin t]) srcs)\<rparr>)"
  by (induction srcs arbitrary: s) (simp_all add: do_op_def)

lemma close_no_schema:
  "ndb_schema s = None \<Longrightarrow> close X s = (None, s\<lparr>atexit_registered := False\<rparr>)"
  by (simp add: close_def Let_def)

lemma close_frame:
  "ndb_schema (snd (close X s)) = ndb_schema s \<and> ndb_src_threads (snd (close X s)) = ndb_src_threads s"
proof (cases "ndb_schema s")
  case None
  then show ?thesis by (simp add: close_no_schema)
next
  case (Some sch)
  let ?s1 = "s\<lparr>atexit_registered := False,
               event_queue := event_queue s @ [(''localhost'', [ExcEvent ShutdownException])]\<rparr>"
  obtain r2 s2 where c: "close_sources X (ndb_src_threads s) ?s1 = (r2, s2)"
    by (cases "close_sources X (ndb_src_threads s) ?s1")
  note f = close_sources_frame[OF c]
  show ?thesis using Some c f
    by (auto simp: close_def Let_def do_op_def split: option.splits prod.splits)
qed

lemma close_first_op:
  assumes "ndb_schema s \<noteq> None"
  shows "prefix (ops s @ [case ndb_src_threads s of [] \<Rightarrow> DbmJoin | t # ts \<Rightarrow> ChannelClose t])
           (ops (snd (close X s)))
       \<and> event_queue (snd (close X s)) = event_queue s @ [(''localhost'', [ExcEvent ShutdownException])]"
proof -
  from assms obtain sch where Some: "ndb_schema s = Some sch" by auto
  let ?s1 = "s\<lparr>atexit_registered := False,
               event_queue := event_queue s @ [(''localhost'', [ExcEvent ShutdownException])]\<rparr>"
  obtain r2 s2 where c: "close_sources X (ndb_src_threads s) ?s1 = (r2, s2)"
    by (cases "close_sources X (ndb_src_threads s) ?s1")
  note f = close_sources_frame[OF c]
  show ?thesis
  proof (cases "ndb_src_threads s")
    case Nil
    with c have "s2 = ?s1" "r2 = None" by simp_all
    then show ?thesis using Some c Nil
      by (auto simp: close_def Let_def do_op_def split: option.splits prod.splits)
  next
    case (Cons t ts)
    with f have p: "prefix (ops s @ [ChannelClose t]) (ops s2)" by simp
    then have "prefix (ops s @ [ChannelClose t]) (ops s2 @ zs)" for zs by simp
    then show ?thesis using Some c Cons f p
      by (auto simp: close_def Let_def do_op_def split: option.splits prod.splits)
  qed
qed

lemma close_ok:
  assumes "\<forall>h c. X h c = None" and "ndb_schema s \<noteq> None"
  shows "close X s = (None, s\<lparr>atexit_registered := False,
            event_queue := event_queue s @ [(''localhost'', [ExcEvent ShutdownException])],
            ops := ops s @ close_ops (ndb_src_threads s)\<rparr>)"
  using assms by (auto simp: close_def Let_def close_sources_ok do_op_def close_ops_def)

text \<open>
  C1 as the program has it. \<^verbatim>\<open>close\<close> is without effect on channels, threads and
  store, and raises nothing, when \<^verbatim>\<open>self.schema\<close> is \<^verbatim>\<open>None\<close>. It never resets
  \<^verbatim>\<open>self.schema\<close> or \<^verbatim>\<open>self._src_threads\<close>. So when the schema is there, a second
  call after a first one puts a second shutdown sentinel on the queue and makes calls
  again, beginning with the close of the first source thread's channel (the join of the
  dispatch thread when there is no source thread); and when no call raises, both calls
  return normally and the second makes the same calls as the first: close and join for
  every source thread, the join of the dispatch thread, commit and close of the store.
\<close>

theorem close_twice:
  "(ndb_schema s = None \<longrightarrow> close X s = (None, s\<lparr>atexit_registered := False\<rparr>))
   \<and> ndb_schema (snd (close X s)) = ndb_schema s
   \<and> ndb_src_threads (snd (close X s)) = ndb_src_threads s
   \<and> (ndb_schema s \<noteq> None \<longrightarrow>
        prefix (ops (snd (close X s)) @ [case ndb_src_threads s of [] \<Rightarrow> DbmJoin | t # ts \<Rightarrow> ChannelClose t])
               (ops (snd (close X (snd (close X s)))))
        \<and> event_queue (snd (close X (snd (close X s))))
            = event_queue s @ [(''localhost'', [ExcEvent ShutdownException]),
                               (''localhost'', [ExcEvent ShutdownException])])
   \<and> (ndb_schema s \<noteq> None \<and> (\<forall>h c. X h c = None) \<longrightarrow>
        fst (close X s) = None \<and> fst (close X (snd (close X s))) = None
        \<and> ops (snd (close X (snd (close X s))))
            = ops s @ close_ops (ndb_src_threads s) @ close_ops (ndb_src_threads s))"
proof (intro conjI impI)
  assume "ndb_schema s = None"
  then show "close X s = (None, s\<lparr>atexit_registered := False\<rparr>)" by (rule close_no_schema)
next
  show "ndb_schema (snd (close X s)) = ndb_schema s" by (simp add: close_frame)
  show "ndb_src_threads (snd (close X s)) = ndb_src_threads s" by (simp add: close_frame)
next
  assume a: "ndb_schema s \<noteq> None"
  then have b: "ndb_schema (snd (close X s)) \<noteq> None" by (simp add: close_frame)
  from close_first_op[OF b, of X] close_first_op[OF a, of X]
  show "prefix (ops (snd (close X s)) @ [case ndb_src_threads s of [] \<Rightarrow> DbmJoin | t # ts \<Rightarrow> ChannelClose t])
               (ops (snd (close X (snd (close X s)))))"
    and "event_queue (snd (close X (snd (close X s))))
            = event_queue s @ [(''localhost'', [ExcEvent ShutdownException]),
                               (''localhost'', [ExcEvent ShutdownException])]"
    by (simp_all add: close_frame)
next
  assume a: "ndb_schema s \<noteq> None \<and> (\<forall>h c. X h c = None)"
  then have c1: "close X s = (None, s\<lparr>atexit_registered := False,
            event_queue := event_queue s @ [(''localhost'', [ExcEvent ShutdownException])],
            ops := ops s @ close_ops (ndb_src_threads s)\<rparr>)" by (simp add: close_ok)
  let ?s1 = "s\<lparr>atexit_registered := False,
            event_queue := event_queue s @ [(''localhost'', [ExcEvent ShutdownException])],
            ops := ops s @ close_ops (ndb_src_threads s)\<rparr>"
  have c2: "close X ?s1 = (None, ?s1\<lparr>atexit_registered := False,
            event_queue := event_queue ?s1 @ [(''localhost'', [ExcEvent ShutdownException])],
            ops := ops ?s1 @ close_ops (ndb_src_threads ?s1)\<rparr>)"
    using a by (intro close_ok) simp_all
  show "fst (close X s) = None" by (simp add: c1)
  show "fst (close X (snd (close X s))) = None" by (simp add: c1 c2)
  show "ops (snd (close X (snd (close X s))))
            = ops s @ close_ops (ndb_src_threads s) @ close_ops (ndb_src_threads s)"
    by (simp add: c1 c2)
qed

theorem close_twice_witness:
  "ndb_schema running_facade \<noteq> None
   \<and> fst (close never_raises running_facade) = None
   \<and> fst (close never_raises (snd (close never_raises running_facade))) = None
   \<and> ops (snd (close never_raises (snd (close never_raises running_facade))))
       = [ChannelClose ''localhost'', ThreadJoin ''localhost'', DbmJoin, StoreCommit, StoreClose,
          ChannelClose ''localhost'', ThreadJoin ''localhost'', DbmJoin, StoreCommit, StoreClose]
   \<and> close never_raises (running_facade\<lparr>ndb_schema := None\<rparr>)
       = (None, running_facade\<lparr>ndb_schema := None, atexit_registered := False\<rparr>)"
proof -
  have h: "ndb_schema running_facade \<noteq> None" "ops running_facade = []"
     "ndb_src_threads running_facade = [''localhost'']"
    by (simp_all add: running_facade_def)
  have n: "ndb_schema (running_facade\<lparr>ndb_schema := None\<rparr>) = None" by simp
  have x: "\<forall>h c. never_raises h c = None" by (simp add: never_raises_def)
  from close_twice[of running_facade never_raises]
    close_twice[of "running_facade\<lparr>ndb_schema := None\<rparr>" never_raises] h n x
  show ?thesis by (simp add: close_ops_def)
qed

text \<open>
  A second \<^verbatim>\<open>close\<close> on an engine in service is no no-op. When no call on a channel,
  thread or store raises, the first call returns normally and the second one closes the
  channel, joins the threads, and commits and closes the store a second time. When the
  store refuses a commit after it has been closed, the second call raises that error.
\<close>

theorem second_close_not_noop:
  "fst (close never_raises running_facade) = None
   \<and> ops (snd (close never_raises running_facade))
       = [ChannelClose ''localhost'', ThreadJoin ''localhost'', DbmJoin, StoreCommit, StoreClose]
   \<and> ops (snd (close never_raises (snd (close never_raises running_facade))))
       = [ChannelClose ''localhost'', ThreadJoin ''localhost'', DbmJoin, StoreCommit, StoreClose,
          ChannelClose ''localhost'', ThreadJoin ''localhost'', DbmJoin, StoreCommit, StoreClose]
   \<and> fst (close closed_store_raises running_facade) = None
   \<and> fst (close closed_store_raises (snd (close closed_store_raises running_facade)))
       = Some (StoreError ''closed'')"
  by (simp add: close_def Let_def do_op_def running_facade_def never_raises_def closed_store_raises_def)


section \<open>Runs of the system: what the steps keep\<close>

lemma put_simps [simp]:
  "queue (put og t evs s) = queue s @ [(t, evs)]"
  "taken (put og t evs s) = taken s"
  "put_log (put og t evs s) = put_log s @ [(og, t, evs)]"
  "engine (put og t evs s) = engine s"
  "dbm_phase (put og t evs s) = dbm_phase s"
  "schema_set (put og t evs s) = schema_set s"
  "thr (put og t evs s) = thr s"
  "chan (put og t evs s) = chan s"
  "src_threads (put og t evs s) = src_threads s"
  by (simp_all add: put_def)











lemma flat_simps [simp]:
  "flat [] = []"
  "flat ((t, evs) # q) = map (Pair t) evs @ flat q"
  "flat (q @ r) = flat q @ flat r"
  by (simp_all add: flat_def)

lemma register_handler_dispatched [simp]:
  "dispatched (register_handler ev h n) = dispatched n"
  by (simp add: register_handler_def Let_def)

lemma register_all_dispatched [simp]:
  "dispatched (register_all wr items n) = dispatched n"
  by (induction wr items n rule: register_all.induct) simp_all

lemma register_schema_dispatched [simp]:
  "dispatched (register_schema item n) = dispatched n"
  by (induction item n rule: register_schema.induct) simp_all

lemma register_schemas_dispatched [simp]:
  "dispatched (register_schemas items n) = dispatched n"
  by (induction items n rule: register_schemas.induct) simp_all









section \<open>Seed batches come first\<close>





section \<open>Dispatch order\<close>







lemma register_handler_calls [simp]:
  "calls (register_handler ev h n) = calls n"
  by (simp add: register_handler_def Let_def)

lemma register_all_calls [simp]:
  "calls (register_all wr items n) = calls n"
  by (induction wr items n rule: register_all.induct) simp_all

lemma register_schema_calls [simp]:
  "calls (register_schema item n) = calls n"
  by (induction item n rule: register_schema.induct) simp_all

lemma register_schemas_calls [simp]:
  "calls (register_schemas items n) = calls n"
  by (induction items n rule: register_schemas.induct) simp_all


lemma grouped_put [simp]: "engine (put og t evs s) = engine s"
  by (simp add: put_def)




lemma msgs_for_simps [simp]:
  "msgs_for T [] = []"
  "msgs_for T (xs @ ys) = msgs_for T xs @ msgs_for T ys"
  "msgs_for T ((t, Msg m) # xs) = (if t = T then [m] else []) @ msgs_for T xs"
  "msgs_for T ((t, ReadyEvent) # xs) = msgs_for T xs"
  "msgs_for T ((t, ExcEvent c) # xs) = msgs_for T xs"
  "msgs_for T ((t, OtherEvent n) # xs) = msgs_for T xs"
  by (simp_all add: msgs_for_def)

lemma msgs_for_map [simp]:
  "msgs_for T (map (Pair t \<circ> Msg) ms) = (if t = T then ms else [])"
  "msgs_for T (map (Pair t) (map Msg ms)) = (if t = T then ms else [])"
  by (induction ms) simp_all


lemma put_msgs_put [simp]:
  "put_msgs T (put og t evs s) = put_msgs T s @ msgs_for T (map (Pair t) evs)"
  by (simp add: put_msgs_def)

lemma put_msgs_upd [simp]:
  "put_msgs T (s\<lparr>dbm_phase := p\<rparr>) = put_msgs T s"
  "put_msgs T (s\<lparr>engine := n\<rparr>) = put_msgs T s"
  "put_msgs T (s\<lparr>queue := q\<rparr>) = put_msgs T s"
  "put_msgs T (s\<lparr>taken := q\<rparr>) = put_msgs T s"
  "put_msgs T (s\<lparr>thr := th\<rparr>) = put_msgs T s"
  "put_msgs T (s\<lparr>chan := c\<rparr>) = put_msgs T s"
  "put_msgs T (s\<lparr>src_threads := st\<rparr>) = put_msgs T s"
  "put_msgs T (s\<lparr>schema_set := b\<rparr>) = put_msgs T s"
  by (simp_all add: put_msgs_def)

lemma future_put [simp]: "future W T (put og t evs s) = future W T s"
  by (simp add: future_def split: tstate.splits phase.splits)

lemma future_upd [simp]:
  "future W T (s\<lparr>engine := n\<rparr>) = future W T s"
  "future W T (s\<lparr>queue := q\<rparr>) = future W T s"
  "future W T (s\<lparr>taken := q\<rparr>) = future W T s"
  "future W T (s\<lparr>src_threads := st\<rparr>) = future W T s"
  "future W T (s\<lparr>schema_set := b\<rparr>) = future W T s"
  by (simp_all add: future_def split: tstate.splits phase.splits)

lemma side_put [simp]: "side T (put og t evs s) = side T s"
  by (simp add: side_def)

lemma side_upd [simp]:
  "side T (s\<lparr>engine := n\<rparr>) = side T s"
  "side T (s\<lparr>queue := q\<rparr>) = side T s"
  "side T (s\<lparr>taken := q\<rparr>) = side T s"
  "side T (s\<lparr>src_threads := st\<rparr>) = side T s"
  "side T (s\<lparr>schema_set := b\<rparr>) = side T s"
  by (simp_all add: side_def)

lemma seeds_of_simps [simp]:
  "seeds_of W T [] = []"
  "seeds_of W T ((t, k) # plan) = (if t = T then seed W t k else []) @ seeds_of W T plan"
  by (simp_all add: seeds_of_def)

lemma chan_msgs_simps [simp]:
  "chan_msgs [] = []"
  "chan_msgs (Batch b # rest) = b @ chan_msgs rest"
  "chan_msgs (GetRaises # rest) = chan_msgs rest"
  by (simp_all add: chan_msgs_def)












end
